theory Spec2Isabelle
  imports Main "HOL-Library.Sublist"
begin

section \<open>MediaService: the hand-written multipart/form-data decoder and the upload path\<close>

text \<open>
  The development embeds the class \<open>MediaService\<close>: \<open>splitBuffer\<close>,
  \<open>parseMultipartFile\<close>, \<open>uploadFile\<close> and \<open>uploadAndCreateMedia\<close>.

  A Node \<open>Buffer\<close> is a list of bytes; an Isabelle \<open>char\<close> is one byte, so a buffer is
  a \<open>char list\<close>. The content-type header is a JavaScript string whose code units are
  the Latin-1 bytes of the header line, one \<open>char\<close> each. The strings made from the bytes
  of a part (its header block, the file name, the MIME type) come out of the UTF-8 decoder
  and have no lone surrogate; each is kept as its UTF-8 encoding. A character of such a
  string is one to four \<open>char\<close>s, a 7-bit character is one, and a 7-bit character occurs
  in the string exactly where its byte occurs in the encoding.
\<close>

type_synonym buffer = "char list"

definition CR :: char where "CR = CHR 0x0D"
definition LF :: char where "LF = CHR 0x0A"
definition DQ :: char where "DQ = CHR 0x22"

definition CRLFCRLF :: buffer where
  \<comment> \<open>the needle \<open>'\r\n\r\n'\<close>\<close>
  "CRLFCRLF = [CR, LF, CR, LF]"

subsection \<open>Searching: \<open>indexOf\<close>, \<open>includes\<close>, \<open>slice\<close>\<close>

text \<open>
  \<open>find_first pat xs\<close> is the offset of the leftmost occurrence of \<open>pat\<close> in \<open>xs\<close>;
  \<open>None\<close> stands for the result \<open>-1\<close>.
\<close>

fun find_first :: "'a list \<Rightarrow> 'a list \<Rightarrow> nat option" where
  "find_first pat [] = (if pat = [] then Some 0 else None)"
| "find_first pat (x # xs) =
     (if prefix pat (x # xs) then Some 0 else map_option Suc (find_first pat xs))"

definition indexOf :: "'a list \<Rightarrow> 'a list \<Rightarrow> nat \<Rightarrow> nat option" where
  \<comment> \<open>\<open>buffer.indexOf(value, byteOffset)\<close>: an offset beyond the end is the end\<close>
  "indexOf buf pat byteOffset =
     (let s = min byteOffset (length buf)
      in map_option (\<lambda>i. s + i) (find_first pat (drop s buf)))"

definition str_includes :: "string \<Rightarrow> string \<Rightarrow> bool" where
  \<comment> \<open>\<open>str.includes(pat)\<close>\<close>
  "str_includes str pat = (indexOf str pat 0 \<noteq> None)"

definition slice :: "'a list \<Rightarrow> nat \<Rightarrow> nat \<Rightarrow> 'a list" where
  \<comment> \<open>\<open>buffer.slice(start, end)\<close> for offsets that are not negative\<close>
  "slice buf start stop = take (stop - start) (drop start buf)"

definition slice_from :: "'a list \<Rightarrow> nat \<Rightarrow> 'a list" where
  \<comment> \<open>\<open>buffer.slice(start)\<close>\<close>
  "slice_from buf start = drop start buf"

subsection \<open>\<open>splitBuffer\<close>\<close>

text \<open>
  The \<open>while\<close> loop of \<open>splitBuffer\<close>, with its variables \<open>start\<close>, \<open>index\<close> and
  \<open>parts\<close> as arguments. The loop has no bound of its own: with an empty delimiter
  \<open>indexOf\<close> returns \<open>start\<close> again and again. Not returning is the value \<open>None\<close>.
\<close>

partial_function (option) splitLoop ::
  "buffer \<Rightarrow> buffer \<Rightarrow> nat \<Rightarrow> nat \<Rightarrow> buffer list \<Rightarrow> buffer list option" where
  "splitLoop buf delimiter start index parts =
     (if index < length buf then
        (case indexOf buf delimiter start of
           None \<Rightarrow> Some (if start < length buf then parts @ [slice_from buf start] else parts)
         | Some index' \<Rightarrow>
             splitLoop buf delimiter (index' + length delimiter) index'
               (if index' > start then parts @ [slice buf start index'] else parts))
      else Some parts)"

declare splitLoop.simps [code]

definition splitBuffer :: "buffer \<Rightarrow> buffer \<Rightarrow> buffer list option" where
  "splitBuffer buf delimiter = splitLoop buf delimiter 0 0 []"

subsection \<open>The regular expressions\<close>

text \<open>
  Each \<open>str.match(re)\<close> of the source is written out as the search it performs: the
  leftmost start position at which the pattern matches, and there the first match in the
  backtracking order of the greedy quantifiers. The result is capture group 1.
\<close>

definition line_terminator :: "char \<Rightarrow> bool" where
  \<comment> \<open>what \<open>.\<close> does not match; U+2028 and U+2029 are not Latin-1\<close>
  "line_terminator c = (c = CR \<or> c = LF)"

fun strip_prefix :: "'a list \<Rightarrow> 'a list \<Rightarrow> 'a list option" where
  "strip_prefix [] ys = Some ys"
| "strip_prefix (x # xs) [] = None"
| "strip_prefix (x # xs) (y # ys) = (if x = y then strip_prefix xs ys else None)"

fun match_boundary :: "string \<Rightarrow> string option" where
  \<comment> \<open>\<open>/boundary=(.+)$/\<close>: \<open>$\<close> is the end of the string, so \<open>(.+)\<close> is the whole rest\<close>
  "match_boundary [] = None"
| "match_boundary (c # cs) =
     (case strip_prefix ''boundary='' (c # cs) of
        Some rest \<Rightarrow>
          if rest \<noteq> [] \<and> list_all (\<lambda>x. \<not> line_terminator x) rest then Some rest
          else match_boundary cs
      | None \<Rightarrow> match_boundary cs)"

fun match_filename :: "string \<Rightarrow> string option" where
  \<comment> \<open>\<open>/filename="([^"]+)"/\<close>: the longest run without a quote, then a quote\<close>
  "match_filename [] = None"
| "match_filename (c # cs) =
     (case strip_prefix (''filename='' @ [DQ]) (c # cs) of
        Some rest \<Rightarrow>
          (let g = takeWhile (\<lambda>x. x \<noteq> DQ) rest
           in if g \<noteq> [] \<and> drop (length g) rest \<noteq> [] then Some g else match_filename cs)
      | None \<Rightarrow> match_filename cs)"

text \<open>
  The characters \<open>\s\<close> matches and \<open>trim()\<close> removes, each in UTF-8: tab, line feed,
  vertical tab, form feed, carriage return, space, U+00A0, U+1680, U+2000 to U+200A,
  U+2028, U+2029, U+202F, U+205F, U+3000 and U+FEFF.
\<close>

definition white_space :: "string list" where
  "white_space =
     map (\<lambda>c. [c]) [CHR 0x09, CHR 0x0A, CHR 0x0B, CHR 0x0C, CHR 0x0D, CHR 0x20]
     @ [[CHR 0xC2, CHR 0xA0], [CHR 0xE1, CHR 0x9A, CHR 0x80]]
     @ map (\<lambda>c. [CHR 0xE2, CHR 0x80, c])
         [CHR 0x80, CHR 0x81, CHR 0x82, CHR 0x83, CHR 0x84, CHR 0x85, CHR 0x86, CHR 0x87,
          CHR 0x88, CHR 0x89, CHR 0x8A, CHR 0xA8, CHR 0xA9, CHR 0xAF]
     @ [[CHR 0xE2, CHR 0x81, CHR 0x9F], [CHR 0xE3, CHR 0x80, CHR 0x80],
        [CHR 0xEF, CHR 0xBB, CHR 0xBF]]"

function leading_run :: "string list \<Rightarrow> string \<Rightarrow> string list" where
  \<comment> \<open>the characters of \<open>cs\<close> that \<open>s\<close> starts with, one after the other\<close>
  "leading_run cs s =
     (case find (\<lambda>w. w \<noteq> [] \<and> prefix w s) cs of
        None \<Rightarrow> []
      | Some w \<Rightarrow> w # leading_run cs (drop (length w) s))"
  by pat_completeness auto
termination
proof (relation "measure (\<lambda>(cs, s). length s)")
  show "wf (measure (\<lambda>(cs, s). length s))" by simp
next
  fix cs :: "string list" and s w :: string
  assume "find (\<lambda>w. w \<noteq> [] \<and> prefix w s) cs = Some w"
  then have "w \<noteq> []" and "prefix w s" by (auto simp: find_Some_iff)
  then have "length w \<le> length s" and "w \<noteq> []" by (auto dest: prefix_length_le)
  then show "((cs, drop (length w) s), (cs, s)) \<in> measure (\<lambda>(cs, s). length s)"
    by (cases w) auto
qed

declare leading_run.simps [simp del]

fun content_type_group :: "string list \<Rightarrow> string \<Rightarrow> string option" where
  \<comment> \<open>\<open>\s*([^\r\n]+)\<close> with \<open>\s*\<close> taking the characters \<open>ws\<close> (last one first), then fewer\<close>
  "content_type_group [] rest =
     (let g = takeWhile (\<lambda>x. \<not> line_terminator x) rest in if g = [] then None else Some g)"
| "content_type_group (w # ws) rest =
     (let g = takeWhile (\<lambda>x. \<not> line_terminator x) (drop (length (concat (w # ws))) rest)
      in if g = [] then content_type_group ws rest else Some g)"

fun match_content_type :: "string \<Rightarrow> string option" where
  \<comment> \<open>\<open>/Content-Type:\s*([^\r\n]+)/\<close>\<close>
  "match_content_type [] = None"
| "match_content_type (c # cs) =
     (case strip_prefix ''Content-Type:'' (c # cs) of
        Some rest \<Rightarrow>
          (case content_type_group (rev (leading_run white_space rest)) rest of
             Some g \<Rightarrow> Some g
           | None \<Rightarrow> match_content_type cs)
      | None \<Rightarrow> match_content_type cs)"

definition trim_start :: "string list \<Rightarrow> string \<Rightarrow> string" where
  "trim_start cs s = drop (length (concat (leading_run cs s))) s"

definition trim :: "string \<Rightarrow> string" where
  \<comment> \<open>\<open>str.trim()\<close>: white space off the front, then off the end\<close>
  "trim s = rev (trim_start (map rev white_space) (rev (trim_start white_space s)))"

subsection \<open>Between buffers and strings: \<open>toString()\<close> and \<open>Buffer.from\<close>\<close>

text \<open>
  \<open>toString()\<close> runs the UTF-8 decoder of the Encoding Standard. Its state is the bytes
  seen of the current sequence, the number of bytes still needed, and the bounds for
  the next byte. A well-formed sequence is one character. A byte that cannot start a
  sequence, and a sequence cut short by a byte out of bounds or by the end of the input,
  is the character U+FFFD; the byte that cut it short is decoded again as the start of
  the next one. The decoded string is kept in UTF-8: a well-formed sequence is copied,
  U+FFFD is \<open>EF BF BD\<close>.
\<close>

definition in_range :: "nat \<Rightarrow> nat \<Rightarrow> char \<Rightarrow> bool" where
  "in_range lo hi c = (lo \<le> of_char c \<and> (of_char c :: nat) \<le> hi)"

definition replacement :: string where
  "replacement = [CHR 0xEF, CHR 0xBF, CHR 0xBD]"

definition lead :: "char \<Rightarrow> (nat \<times> nat \<times> nat) option" where
  \<comment> \<open>for a first byte: bytes needed after it, and the bounds of the next byte\<close>
  "lead b = (let n = (of_char b :: nat) in
     if 0xC2 \<le> n \<and> n \<le> 0xDF then Some (1, 0x80, 0xBF)
     else if n = 0xE0 then Some (2, 0xA0, 0xBF)
     else if n = 0xED then Some (2, 0x80, 0x9F)
     else if 0xE1 \<le> n \<and> n \<le> 0xEF then Some (2, 0x80, 0xBF)
     else if n = 0xF0 then Some (3, 0x90, 0xBF)
     else if n = 0xF4 then Some (3, 0x80, 0x8F)
     else if 0xF1 \<le> n \<and> n \<le> 0xF3 then Some (3, 0x80, 0xBF)
     else None)"

fun decode :: "(buffer \<times> nat \<times> nat \<times> nat) option \<Rightarrow> buffer \<Rightarrow> string" where
  "decode None [] = []"
| "decode (Some pending) [] = replacement"
| "decode None (b # bs) =
     (if (of_char b :: nat) < 0x80 then b # decode None bs
      else case lead b of
        None \<Rightarrow> replacement @ decode None bs
      | Some (needed, lo, hi) \<Rightarrow> decode (Some ([b], needed, lo, hi)) bs)"
| "decode (Some (seen, needed, lo, hi)) (b # bs) =
     (if in_range lo hi b then
        (if needed = 1 then (seen @ [b]) @ decode None bs
         else decode (Some (seen @ [b], needed - 1, 0x80, 0xBF)) bs)
      else replacement @ decode None (b # bs))"

definition toString :: "buffer \<Rightarrow> string" where
  \<comment> \<open>\<open>buffer.toString()\<close>\<close>
  "toString b = decode None b"

text \<open>
  The 7-bit characters of a string, with \<open>None\<close> for each stretch of other bytes between
  them.
\<close>

definition seven_bit :: "char \<Rightarrow> bool" where
  "seven_bit c = ((of_char c :: nat) < 0x80)"

definition gap :: "char option list \<Rightarrow> char option list" where
  "gap ys = (case ys of None # _ \<Rightarrow> ys | _ \<Rightarrow> None # ys)"

fun skeleton :: "string \<Rightarrow> char option list" where
  "skeleton [] = []"
| "skeleton (x # xs) = (if seven_bit x then Some x # skeleton xs else gap (skeleton xs))"

definition utf8 :: "string \<Rightarrow> buffer" where
  \<comment> \<open>\<open>Buffer.from(str)\<close>: a code unit below 128 is one byte, a Latin-1 one above is two\<close>
  "utf8 s = concat (map (\<lambda>c. let n = (of_char c :: nat)
                               in if n < 128 then [c]
                                  else [char_of (192 + n div 64), char_of (128 + n mod 64)]) s)"

definition delimiter_of :: "string \<Rightarrow> buffer" where
  \<comment> \<open>\<open>Buffer.from(`--${boundary}`)\<close>\<close>
  "delimiter_of boundary = utf8 (''--'' @ boundary)"

subsection \<open>\<open>parseMultipartFile\<close>\<close>

datatype error =
    InvalidContentType string
      \<comment> \<open>\<open>'Content-Type must be multipart/form-data'\<close>, \<open>'No boundary found in multipart data'\<close>\<close>
  | NoFileFound           \<comment> \<open>\<open>'No file uploaded'\<close>\<close>
  | PayloadTooLarge       \<comment> \<open>\<open>'File too large. Maximum size is ... bytes'\<close>\<close>
  | StorageWriteFailure   \<comment> \<open>\<open>writeFileSync\<close> throws\<close>
  | PersistenceFailure    \<comment> \<open>\<open>prisma.media.create\<close> rejects\<close>

record fileData =
  filename :: string
  mimeType :: string
  content :: buffer

record jwt =
  sub :: "string option"

record request =
  content_type :: "string option"   \<comment> \<open>\<open>request.headers['content-type']\<close>\<close>
  body :: "buffer option"           \<comment> \<open>\<open>request.body\<close>\<close>
  user :: "jwt option"              \<comment> \<open>\<open>request.user\<close>\<close>

definition parsePart :: "buffer \<Rightarrow> fileData option" where
  \<comment> \<open>the body of the \<open>for\<close> loop; \<open>None\<close> is \<open>continue\<close>\<close>
  "parsePart part =
     (if length part = 0 then None
      else case indexOf part CRLFCRLF 0 of
        None \<Rightarrow> None
      | Some headerEndIndex \<Rightarrow>
          (let headerSection = toString (slice part 0 headerEndIndex);
               contentSection = slice_from part (headerEndIndex + 4)
           in if str_includes headerSection ''Content-Disposition: form-data''
                 \<and> str_includes headerSection ''filename=''
              then Some \<lparr>filename = (case match_filename headerSection of
                                        Some m \<Rightarrow> m | None \<Rightarrow> ''unknown''),
                         mimeType = (case match_content_type headerSection of
                                        Some m \<Rightarrow> trim m | None \<Rightarrow> ''application/octet-stream''),
                         content = contentSection\<rparr>
              else None))"

fun parseParts :: "buffer list \<Rightarrow> fileData option" where
  \<comment> \<open>\<open>for (const part of parts)\<close>, then \<open>return null\<close>\<close>
  "parseParts [] = None"
| "parseParts (part # parts) =
     (case parsePart part of Some fileData \<Rightarrow> Some fileData | None \<Rightarrow> parseParts parts)"

definition extractBoundary :: "string option \<Rightarrow> error + string" where
  \<comment> \<open>the first lines of \<open>parseMultipartFile\<close>, up to \<open>boundaryMatch[1]\<close>\<close>
  "extractBoundary h =
     (case h of
        None \<Rightarrow> Inl (InvalidContentType ''Content-Type must be multipart/form-data'')
      | Some contentType \<Rightarrow>
          if contentType = [] \<or> \<not> str_includes contentType ''multipart/form-data''
          then Inl (InvalidContentType ''Content-Type must be multipart/form-data'')
          else (case match_boundary contentType of
                  None \<Rightarrow> Inl (InvalidContentType ''No boundary found in multipart data'')
                | Some boundary \<Rightarrow> Inr boundary))"

definition parseMultipartFile :: "request \<Rightarrow> (error + fileData option) option" where
  "parseMultipartFile request =
     (case extractBoundary (content_type request) of
        Inl e \<Rightarrow> Some (Inl e)
      | Inr boundary \<Rightarrow>
          (case body request of
             None \<Rightarrow> Some (Inr None)
           | Some rawBody \<Rightarrow>
               if length rawBody = 0 then Some (Inr None)
               else (case splitBuffer rawBody (delimiter_of boundary) of
                       None \<Rightarrow> None
                     | Some parts \<Rightarrow> Some (Inr (parseParts parts)))))"

subsection \<open>\<open>uploadFile\<close> and \<open>uploadAndCreateMedia\<close>\<close>

record config =
  uploadDir :: string                 \<comment> \<open>\<open>UPLOAD_DIR || './uploads'\<close>\<close>
  maxFileSize :: "int option"         \<comment> \<open>\<open>parseInt(MAX_FILE_SIZE || '10485760')\<close>; \<open>None\<close> is NaN\<close>
  allowedMimeTypes :: "string list"   \<comment> \<open>\<open>(ALLOWED_MIME_TYPES || ...).split(',')\<close>\<close>
  BASE_URL :: "string option"         \<comment> \<open>\<open>process.env.BASE_URL\<close>\<close>

record media =
  media_id :: string
  url :: string
  media_mimeType :: string
  sizeBytes :: nat
  width :: "nat option"
  height :: "nat option"
  storageKey :: string
  ownerUserId :: string

record dto =
  dto_id :: string
  dto_url :: string
  dto_mimeType :: string
  dto_width :: "nat option"
  dto_height :: "nat option"

text \<open>
  What the two operations read from outside: the clock, the random number, the \<open>path\<close>
  module, the id the database gives the new row, and whether the write and the insert go
  through. What they change: the files of the upload directory and the rows of the media
  table. Both return the outcome and the world after it; \<open>None\<close> is not returning.
\<close>

record env =
  now :: nat                              \<comment> \<open>\<open>Date.now()\<close>\<close>
  random36 :: string                      \<comment> \<open>\<open>Math.random().toString(36)\<close>\<close>
  extname :: "string \<Rightarrow> string"          \<comment> \<open>\<open>path.extname\<close>\<close>
  path_join :: "string \<Rightarrow> string \<Rightarrow> string"   \<comment> \<open>\<open>path.join\<close>\<close>
  new_id :: string
  write_fails :: bool
  create_fails :: bool

record world =
  files :: "string \<rightharpoonup> buffer"
  rows :: "media list"

fun decimal :: "nat \<Rightarrow> string" where
  \<comment> \<open>a number inside a template literal\<close>
  "decimal n = (if n < 10 then [char_of (48 + n)]
                else decimal (n div 10) @ [char_of (48 + n mod 10)])"

declare decimal.simps [simp del]

definition substr :: "string \<Rightarrow> nat \<Rightarrow> nat \<Rightarrow> string" where
  "substr s from len = take len (drop from s)"

definition too_large :: "config \<Rightarrow> fileData \<Rightarrow> bool" where
  \<comment> \<open>\<open>fileData.content.length > this.maxFileSize\<close>; a comparison with NaN is false\<close>
  "too_large cfg fileData =
     (case maxFileSize cfg of None \<Rightarrow> False | Some m \<Rightarrow> int (length (content fileData)) > m)"

definition writeFileSync :: "env \<Rightarrow> world \<Rightarrow> string \<Rightarrow> buffer \<Rightarrow> error + world" where
  "writeFileSync e w filepath data =
     (if write_fails e then Inl StorageWriteFailure
      else Inr (w\<lparr>files := (files w)(filepath \<mapsto> data)\<rparr>))"

definition getImageDimensions :: "string \<Rightarrow> string \<Rightarrow> (nat \<times> nat) option" where
  \<comment> \<open>both branches \<open>return null\<close>\<close>
  "getImageDimensions filepath mime = (if prefix ''image/'' mime then None else None)"

definition media_create :: "env \<Rightarrow> world \<Rightarrow> media \<Rightarrow> error + (media \<times> world)" where
  \<comment> \<open>\<open>prisma.media.create({ data })\<close>: the row gets its id and is stored\<close>
  "media_create e w data =
     (if create_fails e then Inl PersistenceFailure
      else (let m = data\<lparr>media_id := new_id e\<rparr> in Inr (m, w\<lparr>rows := rows w @ [m]\<rparr>)))"

definition baseUrl :: "config \<Rightarrow> string" where
  \<comment> \<open>\<open>process.env.BASE_URL || 'http://localhost:4005'\<close>\<close>
  "baseUrl cfg = (case BASE_URL cfg of
                    None \<Rightarrow> ''http://localhost:4005''
                  | Some u \<Rightarrow> if u = [] then ''http://localhost:4005'' else u)"

definition owner_of :: "request \<Rightarrow> string" where
  \<comment> \<open>\<open>request.user?.sub || 'anonymous'\<close>\<close>
  "owner_of request =
     (case user request of
        None \<Rightarrow> ''anonymous''
      | Some u \<Rightarrow> (case sub u of
                     None \<Rightarrow> ''anonymous''
                   | Some s \<Rightarrow> if s = [] then ''anonymous'' else s))"

definition or_undefined :: "nat option \<Rightarrow> nat option" where
  \<comment> \<open>\<open>media.width || undefined\<close>\<close>
  "or_undefined v = (case v of None \<Rightarrow> None | Some n \<Rightarrow> if n = 0 then None else Some n)"

definition uploadAndCreateMedia :: "config \<Rightarrow> env \<Rightarrow> request \<Rightarrow> string \<Rightarrow> world
    \<Rightarrow> ((error + media) \<times> world) option" where
  "uploadAndCreateMedia cfg e request userId w =
     (case parseMultipartFile request of
        None \<Rightarrow> None
      | Some (Inl err) \<Rightarrow> Some (Inl err, w)
      | Some (Inr None) \<Rightarrow> Some (Inl NoFileFound, w)
      | Some (Inr (Some fileData)) \<Rightarrow>
          if too_large cfg fileData then Some (Inl PayloadTooLarge, w)
          else
            (let timestamp = now e;
                 extension = extname e (if filename fileData = [] then [] else filename fileData);
                 fname = decimal timestamp @ ''-'' @ substr (random36 e) 2 9 @ extension;
                 filepath = path_join e (uploadDir cfg) fname
             in case writeFileSync e w filepath (content fileData) of
                  Inl err \<Rightarrow> Some (Inl err, w)
                | Inr w1 \<Rightarrow>
                    (let stats = getImageDimensions filepath (mimeType fileData);
                         fullUrl = baseUrl cfg @ ''/uploads/'' @ fname
                     in case media_create e w1
                               \<lparr>media_id = [], url = fullUrl,
                                media_mimeType = mimeType fileData,
                                sizeBytes = length (content fileData),
                                width = map_option fst stats, height = map_option snd stats,
                                storageKey = fname, ownerUserId = userId\<rparr> of
                          Inl err \<Rightarrow> Some (Inl err, w1)
                        | Inr (m, w2) \<Rightarrow> Some (Inr m, w2))))"

definition uploadFile :: "config \<Rightarrow> env \<Rightarrow> request \<Rightarrow> world \<Rightarrow> ((error + dto) \<times> world) option" where
  "uploadFile cfg e request w =
     (case parseMultipartFile request of
        None \<Rightarrow> None
      | Some (Inl err) \<Rightarrow> Some (Inl err, w)
      | Some (Inr None) \<Rightarrow> Some (Inl NoFileFound, w)
      | Some (Inr (Some fileData)) \<Rightarrow>
          if too_large cfg fileData then Some (Inl PayloadTooLarge, w)
          else
            (let timestamp = now e;
                 extension = extname e (if filename fileData = [] then [] else filename fileData);
                 fname = decimal timestamp @ ''-'' @ substr (random36 e) 2 9 @ extension;
                 filepath = path_join e (uploadDir cfg) fname
             in case writeFileSync e w filepath (content fileData) of
                  Inl err \<Rightarrow> Some (Inl err, w)
                | Inr w1 \<Rightarrow>
                    (let stats = getImageDimensions filepath (mimeType fileData);
                         fullUrl = baseUrl cfg @ ''/uploads/'' @ fname
                     in case media_create e w1
                               \<lparr>media_id = [], url = fullUrl,
                                media_mimeType = mimeType fileData,
                                sizeBytes = length (content fileData),
                                width = map_option fst stats, height = map_option snd stats,
                                storageKey = fname, ownerUserId = owner_of request\<rparr> of
                          Inl err \<Rightarrow> Some (Inl err, w1)
                        | Inr (m, w2) \<Rightarrow>
                            Some (Inr \<lparr>dto_id = media_id m, dto_url = url m,
                                       dto_mimeType = media_mimeType m,
                                       dto_width = or_undefined (width m),
                                       dto_height = or_undefined (height m)\<rparr>, w2))))"

subsection \<open>The splitting the specification describes\<close>

text \<open>
  The Part Splitter in the specification's words: locate the next occurrence of the
  delimiter, take everything before it as one segment, advance past the delimiter, and
  go on; when no delimiter is left, the remainder is the last segment. Empty segments
  are kept here and dropped by whoever emits the parts. \<open>join_with d\<close> puts the
  delimiter back between the segments.
\<close>

function spec_segments :: "'a list \<Rightarrow> 'a list \<Rightarrow> 'a list list" where
  "spec_segments d xs =
     (if d = [] then [xs]
      else case find_first d xs of
        None \<Rightarrow> [xs]
      | Some i \<Rightarrow> take i xs # spec_segments d (drop (i + length d) xs))"
  by pat_completeness auto
termination
proof (relation "measure (\<lambda>(d, xs). length xs)")
  show "wf (measure (\<lambda>(d, xs). length xs))" by simp
next
  fix d xs :: "'a list" and i
  assume ne: "d \<noteq> []" and f: "find_first d xs = Some i"
  have le: "k + length d \<le> length ys" if "find_first d ys = Some k" for ys k
    using that
  proof (induction ys arbitrary: k)
    case Nil
    then show ?case by (simp split: if_splits)
  next
    case (Cons y ys)
    then show ?case by (fastforce split: if_splits dest: prefix_length_le)
  qed
  from le [OF f] ne have "length (drop (i + length d) xs) < length xs"
    by (cases d) auto
  then show "((d, drop (i + length d) xs), (d, xs)) \<in> measure (\<lambda>(d, xs). length xs)"
    by simp
qed

declare spec_segments.simps [simp del]

fun join_with :: "'a list \<Rightarrow> 'a list list \<Rightarrow> 'a list" where
  "join_with d [] = []"
| "join_with d [s] = s"
| "join_with d (s # t # ss) = s @ d @ join_with d (t # ss)"

subsection \<open>The \<open>path\<close> module\<close>

text \<open>
  \<open>path.extname\<close> and \<open>path.join\<close> of Node on a POSIX system, for the example
  environment. \<open>extname\<close> is the last component of the path from its last dot on, and
  empty when the component has no dot, starts with its only dot, or is \<open>..\<close>.
  \<open>join\<close> puts a slash between its non-empty arguments and normalises: empty and
  \<open>.\<close> components go, \<open>..\<close> removes the component before it.
\<close>

definition posix_extname :: "string \<Rightarrow> string" where
  "posix_extname path =
     (let stripped = rev (dropWhile (\<lambda>c. c = CHR ''/'') (rev path));
          base = rev (takeWhile (\<lambda>c. c \<noteq> CHR ''/'') (rev stripped));
          ext = rev (takeWhile (\<lambda>c. c \<noteq> CHR ''.'') (rev base))
      in if CHR ''.'' \<notin> set base \<or> length ext + 1 = length base \<or> base = ''..'' then []
         else CHR ''.'' # ext)"

fun split_on :: "char \<Rightarrow> string \<Rightarrow> string list" where
  "split_on c [] = [[]]"
| "split_on c (x # xs) =
     (if x = c then [] # split_on c xs
      else case split_on c xs of s # ss \<Rightarrow> (x # s) # ss | [] \<Rightarrow> [[x]])"

fun normalize_segments :: "bool \<Rightarrow> string list \<Rightarrow> string list \<Rightarrow> string list" where
  \<comment> \<open>\<open>res\<close> holds the components kept so far, the last one first\<close>
  "normalize_segments allowAboveRoot res [] = rev res"
| "normalize_segments allowAboveRoot res (seg # segs) =
     (if seg = [] \<or> seg = ''.'' then normalize_segments allowAboveRoot res segs
      else if seg = ''..'' then
        (case res of
           kept # below \<Rightarrow>
             if kept \<noteq> ''..'' then normalize_segments allowAboveRoot below segs
             else normalize_segments allowAboveRoot (if allowAboveRoot then seg # res else res) segs
         | [] \<Rightarrow> normalize_segments allowAboveRoot (if allowAboveRoot then [seg] else []) segs)
      else normalize_segments allowAboveRoot (seg # res) segs)"

definition posix_normalize :: "string \<Rightarrow> string" where
  "posix_normalize path =
     (if path = [] then ''.''
      else
        (let isAbsolute = (hd path = CHR ''/'');
             trailingSeparator = (last path = CHR ''/'');
             p = join_with ''/''
                   (normalize_segments (\<not> isAbsolute) [] (split_on (CHR ''/'') path))
         in if p = [] then (if isAbsolute then ''/'' else if trailingSeparator then ''./'' else ''.'')
            else (if isAbsolute then ''/'' else []) @ p
                 @ (if trailingSeparator then ''/'' else [])))"

definition posix_join :: "string \<Rightarrow> string \<Rightarrow> string" where
  "posix_join a b =
     (let joined = join_with ''/'' (filter (\<lambda>s. s \<noteq> []) [a, b])
      in if joined = [] then ''.'' else posix_normalize joined)"

subsection \<open>Example requests\<close>

text \<open>
  Scenario A of the specification: boundary \<open>X\<close>, one part with
  \<open>Content-Disposition: form-data; name="file"; filename="a.png"\<close> and
  \<open>Content-Type: image/png\<close>, and a payload of 37 bytes, laid out as RFC 2046 says:
  a delimiter line, the headers, an empty line, the payload, a line break, and the
  closing delimiter.
\<close>

definition headers_A :: string where
  "headers_A = ''Content-Disposition: form-data; name='' @ [DQ] @ ''file'' @ [DQ]
                 @ ''; filename='' @ [DQ] @ ''a.png'' @ [DQ] @ [CR, LF]
                 @ ''Content-Type: image/png''"

definition payload_A :: buffer where
  "payload_A = ''0123456789abcdefghijklmnopqrstuvwxyz!''"

definition encode :: "string \<Rightarrow> string \<Rightarrow> buffer \<Rightarrow> buffer" where
  \<comment> \<open>a one-part multipart body\<close>
  "encode boundary headers payload =
     ''--'' @ boundary @ [CR, LF] @ headers @ CRLFCRLF @ payload @ [CR, LF]
     @ ''--'' @ boundary @ ''--'' @ [CR, LF]"

definition request_A :: request where
  "request_A = \<lparr>content_type = Some ''multipart/form-data; boundary=X'',
                 body = Some (encode ''X'' headers_A payload_A),
                 user = None\<rparr>"

definition config_10MB :: config where
  "config_10MB = \<lparr>uploadDir = ''./uploads'', maxFileSize = Some 10485760,
                   allowedMimeTypes = [''image/jpeg'', ''image/png'', ''image/webp'', ''video/mp4''],
                   BASE_URL = None\<rparr>"

definition env_0 :: env where
  "env_0 = \<lparr>now = 1234, random36 = ''0.k3j9x2m1pq7'',
             extname = posix_extname, path_join = posix_join,
             new_id = ''m1'', write_fails = False, create_fails = False\<rparr>"

definition world_0 :: world where
  "world_0 = \<lparr>files = Map.empty, rows = []\<rparr>"

definition headers_no_type :: string where
  "headers_no_type = ''Content-Disposition: form-data; name='' @ [DQ] @ ''file'' @ [DQ]
                       @ ''; filename='' @ [DQ] @ ''a.bin'' @ [DQ]"

definition headers_A_lowercase :: string where
  \<comment> \<open>\<open>headers_A\<close> with both header names in lower case\<close>
  "headers_A_lowercase = ''content-disposition: form-data; name='' @ [DQ] @ ''file'' @ [DQ]
                 @ ''; filename='' @ [DQ] @ ''a.png'' @ [DQ] @ [CR, LF]
                 @ ''content-type: image/png''"

definition headers_A_mixed :: string where
  \<comment> \<open>\<open>headers_A\<close> with \<open>content-type\<close> in lower case\<close>
  "headers_A_mixed = ''Content-Disposition: form-data; name='' @ [DQ] @ ''file'' @ [DQ]
                 @ ''; filename='' @ [DQ] @ ''a.png'' @ [DQ] @ [CR, LF]
                 @ ''content-type: image/png''"

definition ascii_lower :: "char \<Rightarrow> char" where
  "ascii_lower c = (let n = (of_char c :: nat)
                    in if 65 \<le> n \<and> n \<le> 90 then char_of (n + 32) else c)"

text \<open>
  Raw parts as \<open>splitBuffer\<close> leaves them, between two delimiters: a file field named
  \<open>a.png\<close>, one named \<open>b.png\<close>, a file field submitted with no file chosen
  (\<open>filename=""\<close>), and a text field.
\<close>

definition part_a :: buffer where
  "part_a = [CR, LF] @ ''Content-Disposition: form-data; name='' @ [DQ] @ ''f1'' @ [DQ]
            @ ''; filename='' @ [DQ] @ ''a.png'' @ [DQ] @ [CR, LF]
            @ ''Content-Type: image/png'' @ CRLFCRLF @ ''AAA'' @ [CR, LF]"

definition part_b :: buffer where
  "part_b = [CR, LF] @ ''Content-Disposition: form-data; name='' @ [DQ] @ ''f2'' @ [DQ]
            @ ''; filename='' @ [DQ] @ ''b.png'' @ [DQ] @ [CR, LF]
            @ ''Content-Type: image/png'' @ CRLFCRLF @ ''BBB'' @ [CR, LF]"

definition part_unnamed :: buffer where
  "part_unnamed = [CR, LF] @ ''Content-Disposition: form-data; name='' @ [DQ] @ ''f0'' @ [DQ]
            @ ''; filename='' @ [DQ] @ [DQ] @ [CR, LF]
            @ ''Content-Type: application/octet-stream'' @ CRLFCRLF @ [CR, LF]"

definition part_caption :: buffer where
  "part_caption = [CR, LF] @ ''Content-Disposition: form-data; name='' @ [DQ] @ ''caption'' @ [DQ]
            @ CRLFCRLF @ ''hello'' @ [CR, LF]"

definition request_of_parts :: "buffer list \<Rightarrow> request" where
  \<comment> \<open>the parts behind a delimiter each, then the closing delimiter; boundary \<open>X\<close>\<close>
  "request_of_parts parts =
     \<lparr>content_type = Some ''multipart/form-data; boundary=X'',
      body = Some (concat (map (\<lambda>p. ''--X'' @ p) parts) @ ''--X--'' @ [CR, LF]),
      user = None\<rparr>"

definition headers_notes :: string where
  \<comment> \<open>a file named \<open>Content-Type: notes.txt\<close>, sent without a Content-Type header\<close>
  "headers_notes = ''Content-Disposition: form-data; name='' @ [DQ] @ ''f'' @ [DQ]
                     @ ''; filename='' @ [DQ] @ ''Content-Type: notes.txt'' @ [DQ]"

subsection \<open>The headers of a part as the specification describes them\<close>

text \<open>
  In the specification's words the header text holds one header per line, and header
  names are compared without regard to letter case. A part has a Content-Type when one of
  its header lines starts with that name.
\<close>

definition spec_has_content_type :: "string \<Rightarrow> bool" where
  "spec_has_content_type headerText =
     list_ex (\<lambda>line. prefix ''content-type:'' (map ascii_lower line))
       (spec_segments [CR, LF] headerText)"

subsection \<open>The File Part Selector the specification describes\<close>

text \<open>
  In the specification's words the selector returns the first part whose
  Content-Disposition carries a non-empty \<open>filename\<close> attribute: \<open>filename="..."\<close> with
  at least one character between the quotes, in the header block of the part.
\<close>

definition spec_carries_filename :: "buffer \<Rightarrow> bool" where
  "spec_carries_filename part =
     (case find_first CRLFCRLF part of
        None \<Rightarrow> False
      | Some i \<Rightarrow> match_filename (take i part) \<noteq> None)"

definition spec_select :: "buffer list \<Rightarrow> buffer option" where
  "spec_select parts = find spec_carries_filename parts"

section \<open>Properties\<close>

subsection \<open>Searching\<close>

lemma find_first_None_iff: "find_first pat xs = None \<longleftrightarrow> \<not> sublist pat xs"
  by (induction xs) (auto simp: sublist_Cons_right)

lemma find_first_prefix: "find_first pat xs = Some i \<Longrightarrow> prefix pat (drop i xs)"
  by (induction xs arbitrary: i) (auto split: if_splits)

lemma find_first_le: "find_first pat xs = Some i \<Longrightarrow> i + length pat \<le> length xs"
proof (induction xs arbitrary: i)
  case Nil
  then show ?case by (simp split: if_splits)
next
  case (Cons x xs)
  show ?case
  proof (cases "prefix pat (x # xs)")
    case True
    with Cons.prems show ?thesis by (auto dest: prefix_length_le)
  next
    case False
    with Cons.prems obtain k where "find_first pat xs = Some k" "i = Suc k" by auto
    with Cons.IH show ?thesis by fastforce
  qed
qed

lemma find_first_min: "find_first pat xs = Some i \<Longrightarrow> j < i \<Longrightarrow> \<not> prefix pat (drop j xs)"
proof (induction xs arbitrary: i j)
  case Nil
  then show ?case by (simp split: if_splits)
next
  case (Cons x xs)
  from Cons.prems have np: "\<not> prefix pat (x # xs)" by (auto split: if_splits)
  with Cons.prems obtain k where k: "find_first pat xs = Some k" "i = Suc k" by auto
  show ?case
  proof (cases j)
    case 0
    with np show ?thesis by simp
  next
    case (Suc j')
    with Cons.prems k have "j' < k" by simp
    with Cons.IH k Suc show ?thesis by simp
  qed
qed

lemma find_first_decomp:
  assumes "find_first pat xs = Some i"
  shows "xs = take i xs @ pat @ drop (i + length pat) xs"
proof -
  from find_first_prefix [OF assms] obtain zs where zs: "drop i xs = pat @ zs"
    by (auto simp: prefix_def)
  then have "drop (length pat) (drop i xs) = zs" by simp
  then have "drop (i + length pat) xs = zs" by (simp add: add.commute)
  with zs show ?thesis by (metis append_take_drop_id)
qed

lemma find_first_no_earlier:
  assumes f: "find_first pat xs = Some i" and ne: "pat \<noteq> []"
  shows "\<not> sublist pat (take i xs @ butlast pat)"
proof
  assume "sublist pat (take i xs @ butlast pat)"
  then obtain ps ss where e: "take i xs @ butlast pat = ps @ pat @ ss"
    by (auto simp: sublist_def)
  from find_first_le [OF f] have il: "i \<le> length xs" by simp
  have "length (take i xs) + length (butlast pat) = length ps + (length pat + length ss)"
    using e by (metis length_append)
  moreover have "length (take i xs) = i" using il by simp
  moreover have "length (butlast pat) = length pat - 1" by simp
  moreover have "1 \<le> length pat" using ne by (simp add: Suc_leI)
  ultimately have lt: "length ps < i" by linarith
  have "xs = (take i xs @ butlast pat) @ [last pat] @ drop (i + length pat) xs"
    using find_first_decomp [OF f] ne by (metis append.assoc append_butlast_last_id append_Cons append_Nil)
  then have "xs = ps @ pat @ (ss @ [last pat] @ drop (i + length pat) xs)"
    using e by simp
  then have "drop (length ps) xs = pat @ (ss @ [last pat] @ drop (i + length pat) xs)"
    by (metis append_eq_conv_conj)
  then have "prefix pat (drop (length ps) xs)" by (simp add: prefix_def)
  with find_first_min [OF f lt] show False by simp
qed

lemma find_first_at:
  "pat \<noteq> [] \<Longrightarrow> \<not> sublist pat (h @ butlast pat) \<Longrightarrow> find_first pat (h @ pat @ r) = Some (length h)"
proof (induction h)
  case Nil
  then show ?case by (cases pat) auto
next
  case (Cons a h)
  have np: "\<not> prefix pat (a # h @ pat @ r)"
  proof
    assume p: "prefix pat (a # h @ pat @ r)"
    have "a # h @ pat @ r = ((a # h) @ butlast pat) @ ([last pat] @ r)"
      using Cons.prems(1) by simp
    with p have "prefix pat (((a # h) @ butlast pat) @ ([last pat] @ r))" by simp
    moreover have "prefix ((a # h) @ butlast pat) (((a # h) @ butlast pat) @ ([last pat] @ r))"
      by (rule prefixI) simp
    moreover have "length pat \<le> length ((a # h) @ butlast pat)" by simp
    ultimately have "prefix pat ((a # h) @ butlast pat)" by (rule prefix_length_prefix)
    with Cons.prems(2) show False by (meson prefix_imp_sublist)
  qed
  from Cons.prems(2) have "\<not> sublist pat (h @ butlast pat)"
    by (simp add: sublist_Cons_right)
  with Cons.IH Cons.prems(1) have "find_first pat (h @ pat @ r) = Some (length h)" by simp
  with np show ?case by simp
qed

lemma indexOf_zero: "indexOf buf pat 0 = find_first pat buf"
  by (cases "find_first pat buf") (simp_all add: indexOf_def)

lemma str_includes_sublist: "str_includes str pat \<longleftrightarrow> sublist pat str"
  by (simp add: str_includes_def indexOf_zero find_first_None_iff)

subsection \<open>Decoding keeps the 7-bit text\<close>

lemma gap_gap: "gap (gap ys) = gap ys"
  by (auto simp: gap_def split: list.splits option.splits)

lemma gap_Cons: "\<exists>zs. gap ys = None # zs"
  by (auto simp: gap_def split: list.splits option.splits)

lemma skeleton_other_append:
  "xs \<noteq> [] \<Longrightarrow> \<forall>c \<in> set xs. \<not> seven_bit c \<Longrightarrow> skeleton (xs @ ys) = gap (skeleton ys)"
proof (induction xs)
  case Nil
  then show ?case by simp
next
  case (Cons x xs)
  then show ?case by (cases "xs = []") (simp_all add: gap_gap)
qed

lemma replacement_other: "replacement \<noteq> [] \<and> (\<forall>c \<in> set replacement. \<not> seven_bit c)"
  by (simp add: replacement_def seven_bit_def)

lemma lead_bounds: "lead b = Some (needed, lo, hi) \<Longrightarrow> 128 \<le> lo"
  by (auto simp: lead_def Let_def split: if_splits)

lemma in_range_other: "in_range lo hi b \<Longrightarrow> 128 \<le> lo \<Longrightarrow> \<not> seven_bit b"
  by (simp add: in_range_def seven_bit_def)

lemma skeleton_decode:
  "(st = None \<longrightarrow> skeleton (decode st bs) = skeleton bs)
   \<and> (\<forall>seen needed lo hi. st = Some (seen, needed, lo, hi) \<and> 128 \<le> lo \<and> seen \<noteq> []
          \<and> (\<forall>c \<in> set seen. \<not> seven_bit c)
        \<longrightarrow> skeleton (decode st bs) = gap (skeleton bs))"
proof (induction st bs rule: decode.induct)
  case 1
  then show ?case by simp
next
  case (2 pending)
  then show ?case
    using skeleton_other_append [of replacement "[]"] replacement_other
    by (simp add: gap_def)
next
  case (3 b bs)
  show ?case
  proof (cases "seven_bit b")
    case True
    with 3 show ?thesis by (simp add: seven_bit_def)
  next
    case other: False
    show ?thesis
    proof (cases "lead b")
      case None
      with other show ?thesis
        using 3(2) skeleton_other_append [of replacement "decode None bs"] replacement_other
        by (simp add: seven_bit_def)
    next
      case (Some t)
      obtain needed lo hi where t: "t = (needed, lo, hi)" by (cases t)
      from Some t lead_bounds have lo: "128 \<le> lo" by blast
      from 3(3) [OF _ Some [unfolded t]] other lo
      have "skeleton (decode (Some ([b], needed, lo, hi)) bs) = gap (skeleton bs)"
        by (simp add: seven_bit_def)
      with other Some t show ?thesis by (simp add: seven_bit_def)
    qed
  qed
next
  case (4 seen needed lo hi b bs)
  have "skeleton (decode (Some (seen, needed, lo, hi)) (b # bs)) = gap (skeleton (b # bs))"
    if lo: "128 \<le> lo" and ne: "seen \<noteq> []" and ot: "\<forall>c \<in> set seen. \<not> seven_bit c"
  proof (cases "in_range lo hi b")
    case True
    from in_range_other [OF True lo] have b: "\<not> seven_bit b" .
    have sb: "seen @ [b] \<noteq> [] \<and> (\<forall>c \<in> set (seen @ [b]). \<not> seven_bit c)"
      using ot b by simp
    show ?thesis
    proof (cases "needed = 1")
      case one: True
      from 4(1) [OF True one] have "skeleton (decode None bs) = skeleton bs" by simp
      with True one b sb show ?thesis
        using skeleton_other_append [of "seen @ [b]" "decode None bs"]
        by (simp add: gap_gap)
    next
      case more: False
      from 4(2) [OF True more] sb
      have "skeleton (decode (Some (seen @ [b], needed - 1, 0x80, 0xBF)) bs) = gap (skeleton bs)"
        by simp
      with True more b show ?thesis by (simp add: gap_gap)
    qed
  next
    case False
    from 4(3) [OF False] have "skeleton (decode None (b # bs)) = skeleton (b # bs)" by simp
    with False show ?thesis
      using skeleton_other_append [of replacement "decode None (b # bs)"] replacement_other
      by simp
  qed
  then show ?case by simp
qed

lemma skeleton_toString: "skeleton (toString bs) = skeleton bs"
  using skeleton_decode [of None bs] by (simp add: toString_def)

lemma prefix_skeleton:
  "\<forall>c \<in> set p. seven_bit c \<Longrightarrow> prefix (map Some p) (skeleton xs) \<longleftrightarrow> prefix p xs"
proof (induction p arbitrary: xs)
  case Nil
  then show ?case by simp
next
  case (Cons a p)
  show ?case
  proof (cases xs)
    case Nil
    then show ?thesis by simp
  next
    case (Cons x xs')
    show ?thesis
    proof (cases "seven_bit x")
      case True
      with Cons Cons.IH [of xs'] Cons.prems show ?thesis by simp
    next
      case False
      obtain zs where "gap (skeleton xs') = None # zs" using gap_Cons by blast
      with False Cons Cons.prems show ?thesis by auto
    qed
  qed
qed

lemma sublist_gap:
  "q \<noteq> [] \<Longrightarrow> None \<notin> set q \<Longrightarrow> sublist q (gap ys) \<longleftrightarrow> sublist q ys"
  by (cases q) (auto simp: gap_def sublist_Cons_right split: list.splits option.splits)

lemma sublist_skeleton:
  "p \<noteq> [] \<Longrightarrow> \<forall>c \<in> set p. seven_bit c \<Longrightarrow>
   sublist (map Some p) (skeleton xs) \<longleftrightarrow> sublist p xs"
proof (induction xs)
  case Nil
  then show ?case by simp
next
  case (Cons x xs)
  show ?case
  proof (cases "seven_bit x")
    case True
    with Cons prefix_skeleton [OF Cons.prems(2), of "x # xs"] show ?thesis
      by (simp add: sublist_Cons_right)
  next
    case False
    have "\<not> prefix p (x # xs)"
      using False Cons.prems by (cases p) auto
    moreover have "sublist (map Some p) (gap (skeleton xs)) \<longleftrightarrow> sublist (map Some p) (skeleton xs)"
      using Cons.prems(1) by (intro sublist_gap) auto
    ultimately show ?thesis using False Cons by (simp add: sublist_Cons_right)
  qed
qed

lemma sublist_toString:
  "p \<noteq> [] \<Longrightarrow> \<forall>c \<in> set p. seven_bit c \<Longrightarrow> sublist p (toString bs) \<longleftrightarrow> sublist p bs"
  using sublist_skeleton [of p "toString bs"] sublist_skeleton [of p bs]
  by (simp add: skeleton_toString)

lemma includes_toString:
  "p \<noteq> [] \<Longrightarrow> \<forall>c \<in> set p. seven_bit c \<Longrightarrow> str_includes (toString bs) p \<longleftrightarrow> sublist p bs"
  by (simp add: str_includes_sublist sublist_toString)

lemma includes_toString_disposition:
  "str_includes (toString bs) ''Content-Disposition: form-data''
     \<longleftrightarrow> sublist ''Content-Disposition: form-data'' bs"
  by (rule includes_toString) (simp_all add: seven_bit_def)

lemma includes_toString_filename:
  "str_includes (toString bs) ''filename='' \<longleftrightarrow> sublist ''filename='' bs"
  by (rule includes_toString) (simp_all add: seven_bit_def)

lemma sublist_toString_content_type:
  "sublist ''Content-Type:'' (toString bs) \<longleftrightarrow> sublist ''Content-Type:'' bs"
  by (rule sublist_toString) (simp_all add: seven_bit_def)

subsection \<open>The loop of \<open>splitBuffer\<close> against the specification's splitting\<close>

lemma spec_segments_None:
  "find_first d xs = None \<Longrightarrow> spec_segments d xs = [xs]"
  by (simp add: spec_segments.simps)

lemma spec_segments_Some:
  "d \<noteq> [] \<Longrightarrow> find_first d xs = Some i \<Longrightarrow>
   spec_segments d xs = take i xs # spec_segments d (drop (i + length d) xs)"
  by (subst spec_segments.simps) simp

lemma indexOf_in_range:
  "start \<le> length buf \<Longrightarrow>
   indexOf buf pat start = map_option (\<lambda>i. start + i) (find_first pat (drop start buf))"
  by (simp add: indexOf_def min_def)

lemma splitLoop_segments:
  "d \<noteq> [] \<Longrightarrow> start \<le> length buf \<Longrightarrow> index < length buf \<Longrightarrow>
   splitLoop buf d start index parts =
     Some (parts @ filter (\<lambda>s. s \<noteq> []) (spec_segments d (drop start buf)))"
proof (induction "length buf - start" arbitrary: start index parts rule: less_induct)
  case less
  show ?case
  proof (cases "find_first d (drop start buf)")
    case None
    then have "indexOf buf d start = None"
      using less.prems(2) by (simp add: indexOf_in_range)
    then show ?thesis
      using less.prems None
      by (subst splitLoop.simps) (auto simp: spec_segments_None slice_from_def)
  next
    case (Some i)
    have io: "indexOf buf d start = Some (start + i)"
      using less.prems(2) Some by (simp add: indexOf_in_range)
    from find_first_le [OF Some] less.prems(2)
    have le: "start + i + length d \<le> length buf" by simp
    from less.prems(1) have dpos: "0 < length d" by simp
    from le dpos have lt: "start + i < length buf" by linarith
    have dd: "drop (start + i + length d) buf = drop (i + length d) (drop start buf)"
      by (simp add: add.commute add.left_commute)
    have meas: "length buf - (start + i + length d) < length buf - start"
      using le dpos by linarith
    have tk: "slice buf start (start + i) = take i (drop start buf)"
      by (simp add: slice_def)
    have nonempty: "(take i (drop start buf) \<noteq> []) = (start < start + i)"
      using lt by auto
    have "splitLoop buf d start index parts =
            splitLoop buf d (start + i + length d) (start + i)
              (if start < start + i then parts @ [slice buf start (start + i)] else parts)"
      using less.prems(3) io by (subst splitLoop.simps) simp
    also have "\<dots> = Some ((if start < start + i then parts @ [slice buf start (start + i)] else parts)
                        @ filter (\<lambda>s. s \<noteq> []) (spec_segments d (drop (start + i + length d) buf)))"
      by (rule less.hyps [OF meas less.prems(1) le lt])
    also have "\<dots> = Some (parts @ filter (\<lambda>s. s \<noteq> []) (spec_segments d (drop start buf)))"
      using nonempty by (simp add: spec_segments_Some [OF less.prems(1) Some] tk dd)
    finally show ?thesis .
  qed
qed

lemma splitBuffer_spec_segments:
  assumes "d \<noteq> []"
  shows "splitBuffer buf d = Some (filter (\<lambda>s. s \<noteq> []) (spec_segments d buf))"
proof (cases "buf = []")
  case True
  with assms show ?thesis
    by (simp add: splitBuffer_def splitLoop.simps spec_segments.simps)
next
  case False
  then have "0 < length buf" by simp
  from splitLoop_segments [OF assms _ this, of 0 "[]"] show ?thesis
    by (simp add: splitBuffer_def)
qed

lemma join_spec_segments: "join_with d (spec_segments d xs) = xs"
proof (induction d xs rule: spec_segments.induct)
  case (1 d xs)
  show ?case
  proof (cases "d = []")
    case True
    then show ?thesis by (simp add: spec_segments.simps)
  next
    case ne: False
    show ?thesis
    proof (cases "find_first d xs")
      case None
      then show ?thesis by (simp add: spec_segments_None)
    next
      case (Some i)
      from "1.IH" [OF ne Some]
      have ih: "join_with d (spec_segments d (drop (i + length d) xs)) = drop (i + length d) xs" .
      have nn: "spec_segments d (drop (i + length d) xs) \<noteq> []"
        by (subst spec_segments.simps) (simp split: option.splits)
      then obtain t ts where ts: "spec_segments d (drop (i + length d) xs) = t # ts"
        by (cases "spec_segments d (drop (i + length d) xs)") auto
      have "join_with d (spec_segments d xs) = take i xs @ d @ join_with d (t # ts)"
        by (simp add: spec_segments_Some [OF ne Some] ts)
      also have "\<dots> = take i xs @ d @ drop (i + length d) xs"
        using ih ts by simp
      also have "\<dots> = xs" using find_first_decomp [OF Some] by simp
      finally show ?thesis .
    qed
  qed
qed

lemma spec_segments_first_occurrence:
  "d \<noteq> [] \<Longrightarrow> \<forall>s\<in>set (butlast (spec_segments d xs)). \<not> sublist d (s @ butlast d)"
proof (induction d xs rule: spec_segments.induct)
  case (1 d xs)
  show ?case
  proof (cases "find_first d xs")
    case None
    then show ?thesis by (simp add: spec_segments_None)
  next
    case (Some i)
    have nn: "spec_segments d (drop (i + length d) xs) \<noteq> []"
      by (subst spec_segments.simps) (simp split: option.splits)
    from "1.IH" [OF "1.prems" Some "1.prems"] find_first_no_earlier [OF Some "1.prems"] nn
    show ?thesis
      by (simp add: spec_segments_Some [OF "1.prems" Some])
  qed
qed

lemma spec_segments_last:
  "d \<noteq> [] \<Longrightarrow> \<not> sublist d (last (spec_segments d xs))"
proof (induction d xs rule: spec_segments.induct)
  case (1 d xs)
  show ?case
  proof (cases "find_first d xs")
    case None
    then show ?thesis by (simp add: spec_segments_None find_first_None_iff)
  next
    case (Some i)
    have nn: "spec_segments d (drop (i + length d) xs) \<noteq> []"
      by (subst spec_segments.simps) (simp split: option.splits)
    from "1.IH" [OF "1.prems" Some "1.prems"] nn
    show ?thesis
      by (simp add: spec_segments_Some [OF "1.prems" Some])
  qed
qed

lemma delimiter_of_dashes: "delimiter_of boundary = ''--'' @ utf8 boundary"
  by (simp add: delimiter_of_def utf8_def)

lemma delimiter_of_nonempty: "delimiter_of boundary \<noteq> []"
  by (simp add: delimiter_of_dashes)

text \<open>
  C5. For every body and boundary, \<open>splitBuffer\<close> returns, and what it returns are the
  non-empty segments of one left-to-right pass over the body, in order: the delimiter
  is \<open>--\<close> followed by the boundary; the segments, with the delimiter put back between
  them, are the body; every segment but the last ends where the delimiter first occurs
  after the previous one, so no delimiter starts inside it; the last segment, the
  remainder, contains no delimiter; no emitted part is empty; an empty body gives no
  parts.
\<close>

theorem splitBuffer_single_pass:
  "delimiter_of boundary = ''--'' @ utf8 boundary
   \<and> splitBuffer raw (delimiter_of boundary)
       = Some (filter (\<lambda>s. s \<noteq> []) (spec_segments (delimiter_of boundary) raw))
   \<and> join_with (delimiter_of boundary) (spec_segments (delimiter_of boundary) raw) = raw
   \<and> (\<forall>s \<in> set (butlast (spec_segments (delimiter_of boundary) raw)).
         \<not> sublist (delimiter_of boundary) (s @ butlast (delimiter_of boundary)))
   \<and> \<not> sublist (delimiter_of boundary) (last (spec_segments (delimiter_of boundary) raw))
   \<and> (\<forall>ps. splitBuffer raw (delimiter_of boundary) = Some ps \<longrightarrow> [] \<notin> set ps)
   \<and> splitBuffer [] (delimiter_of boundary) = Some []"
proof -
  let ?d = "delimiter_of boundary"
  have ne: "?d \<noteq> []" by (rule delimiter_of_nonempty)
  have "splitBuffer [] ?d = Some (filter (\<lambda>s. s \<noteq> []) (spec_segments ?d []))"
    by (rule splitBuffer_spec_segments [OF ne])
  also have "spec_segments ?d [] = [[]]"
    using ne by (simp add: spec_segments.simps)
  finally have empty: "splitBuffer [] ?d = Some []" by simp
  have noempty: "\<forall>ps. splitBuffer raw ?d = Some ps \<longrightarrow> [] \<notin> set ps"
    by (simp add: splitBuffer_spec_segments [OF ne])
  show ?thesis
    using delimiter_of_dashes [of boundary] splitBuffer_spec_segments [OF ne, of raw]
      join_spec_segments [of ?d raw] spec_segments_first_occurrence [OF ne, of raw]
      spec_segments_last [OF ne, of raw] noempty empty
    by blast
qed

theorem splitBuffer_single_pass_witness:
  "splitBuffer ''p--Xab--X--Xc'' (delimiter_of ''X'') = Some [''p'', ''ab'', ''c'']
   \<and> spec_segments (delimiter_of ''X'') ''p--Xab--X--Xc'' = [''p'', ''ab'', [], ''c'']
   \<and> \<not> sublist ''--X'' (''p'' @ ''--'') \<and> \<not> sublist ''--X'' (''ab'' @ ''--'')
   \<and> \<not> sublist ''--X'' ([] @ ''--'') \<and> \<not> sublist ''--X'' ''c''"
proof -
  have d: "delimiter_of ''X'' = ''--X''"
    by (simp add: delimiter_of_dashes utf8_def)
  have segs: "spec_segments ''--X'' ''p--Xab--X--Xc'' = [''p'', ''ab'', [], ''c'']"
    by (simp add: spec_segments.simps)
  from splitBuffer_single_pass [of "''X''" "''p--Xab--X--Xc''"]
  show ?thesis unfolding d segs by simp
qed

subsection \<open>The upload path\<close>

lemma parseMultipartFile_request_A:
  "parseMultipartFile request_A =
     Some (Inr (Some \<lparr>filename = ''a.png'', mimeType = ''image/png'',
                       content = payload_A @ [CR, LF]\<rparr>))"
  by code_simp

lemma parseMultipartFile_returns: "\<exists>r. parseMultipartFile request = Some r"
  by (auto simp: parseMultipartFile_def splitBuffer_spec_segments [OF delimiter_of_nonempty]
           split: sum.splits option.splits)

lemma uploadFile_stores:
  assumes "parseMultipartFile request = Some (Inr (Some fileData))"
    and "\<not> too_large cfg fileData" and "\<not> write_fails e" and "\<not> create_fails e"
  shows "\<exists>d m key. uploadFile cfg e request w =
            Some (Inr d, w\<lparr>files := (files w)(path_join e (uploadDir cfg) key \<mapsto> content fileData),
                           rows := rows w @ [m]\<rparr>)
          \<and> dto_mimeType d = mimeType fileData \<and> media_mimeType m = mimeType fileData
          \<and> sizeBytes m = length (content fileData) \<and> storageKey m = key
          \<and> ownerUserId m = owner_of request"
proof -
  define key where
    "key = decimal (now e) @ ''-'' @ substr (random36 e) 2 9 @ extname e (filename fileData)"
  define m where
    "m = \<lparr>media_id = new_id e, url = baseUrl cfg @ ''/uploads/'' @ key,
          media_mimeType = mimeType fileData, sizeBytes = length (content fileData),
          width = None, height = None, storageKey = key, ownerUserId = owner_of request\<rparr>"
  define d where
    "d = \<lparr>dto_id = new_id e, dto_url = baseUrl cfg @ ''/uploads/'' @ key,
          dto_mimeType = mimeType fileData, dto_width = None, dto_height = None\<rparr>"
  have "uploadFile cfg e request w =
          Some (Inr d, w\<lparr>files := (files w)(path_join e (uploadDir cfg) key \<mapsto> content fileData),
                         rows := rows w @ [m]\<rparr>)"
    using assms
    by (simp add: uploadFile_def writeFileSync_def media_create_def getImageDimensions_def
          or_undefined_def Let_def key_def m_def d_def)
  moreover have "dto_mimeType d = mimeType fileData" by (simp add: d_def)
  moreover have "media_mimeType m = mimeType fileData \<and> sizeBytes m = length (content fileData)
      \<and> storageKey m = key \<and> ownerUserId m = owner_of request" by (simp add: m_def)
  ultimately show ?thesis by blast
qed

lemma decimal_1234: "decimal 1234 = ''1234''"
  by code_simp

lemma posix_extname_a_png: "posix_extname ''a.png'' = ''.png''"
  by code_simp

lemma posix_join_uploads:
  "posix_join ''./uploads'' ''1234-k3j9x2m1p.png'' = ''uploads/1234-k3j9x2m1p.png''"
  by code_simp

lemma uploadFile_request_A:
  "maxFileSize cfg = Some 10485760 \<Longrightarrow> uploadDir cfg = ''./uploads'' \<Longrightarrow> BASE_URL cfg = None \<Longrightarrow>
   uploadFile cfg env_0 request_A world_0 =
     Some (Inr \<lparr>dto_id = ''m1'', dto_url = ''http://localhost:4005/uploads/1234-k3j9x2m1p.png'',
                dto_mimeType = ''image/png'', dto_width = None, dto_height = None\<rparr>,
           \<lparr>files = [''uploads/1234-k3j9x2m1p.png'' \<mapsto> payload_A @ [CR, LF]],
            rows = [\<lparr>media_id = ''m1'',
                     url = ''http://localhost:4005/uploads/1234-k3j9x2m1p.png'',
                     media_mimeType = ''image/png'', sizeBytes = 39,
                     width = None, height = None,
                     storageKey = ''1234-k3j9x2m1p.png'', ownerUserId = ''anonymous''\<rparr>]\<rparr>)"
  unfolding uploadFile_def parseMultipartFile_request_A
  by (simp add: too_large_def payload_A_def decimal_1234 posix_extname_a_png posix_join_uploads
        env_0_def world_0_def writeFileSync_def media_create_def getImageDimensions_def
        baseUrl_def owner_of_def request_A_def or_undefined_def substr_def Let_def)

text \<open>
  C2. When the selected file part is longer than the configured maximum, \<open>uploadFile\<close>
  and \<open>uploadAndCreateMedia\<close> fail with \<open>PayloadTooLarge\<close> and return the world
  they were given: the check comes before \<open>writeFileSync\<close>, so no file is written and no
  row is created.
\<close>

theorem too_large_rejected_before_write:
  assumes "parseMultipartFile request = Some (Inr (Some fileData))"
    and "maxFileSize cfg = Some m"
    and "m < int (length (content fileData))"
  shows "uploadFile cfg e request w = Some (Inl PayloadTooLarge, w)
       \<and> uploadAndCreateMedia cfg e request userId w = Some (Inl PayloadTooLarge, w)"
  using assms by (simp add: uploadFile_def uploadAndCreateMedia_def too_large_def)

theorem too_large_rejected_before_write_witness:
  "parseMultipartFile request_A =
     Some (Inr (Some \<lparr>filename = ''a.png'', mimeType = ''image/png'',
                       content = payload_A @ [CR, LF]\<rparr>))
   \<and> (38 :: int) < int (length (payload_A @ [CR, LF]))
   \<and> uploadFile (config_10MB\<lparr>maxFileSize := Some 38\<rparr>) env_0 request_A world_0
       = Some (Inl PayloadTooLarge, world_0)
   \<and> uploadAndCreateMedia (config_10MB\<lparr>maxFileSize := Some 38\<rparr>) env_0 request_A ''u1'' world_0
       = Some (Inl PayloadTooLarge, world_0)"
proof -
  have len: "(38 :: int) < int (length (content \<lparr>filename = ''a.png'', mimeType = ''image/png'',
                       content = payload_A @ [CR, LF]\<rparr>))"
    by (simp add: payload_A_def)
  from too_large_rejected_before_write [OF parseMultipartFile_request_A _ len,
      where cfg = "config_10MB\<lparr>maxFileSize := Some 38\<rparr>" and e = env_0 and w = world_0
        and userId = "''u1''"]
  show ?thesis using len by (simp add: parseMultipartFile_request_A)
qed

lemma uploadAndCreateMedia_stores:
  assumes "parseMultipartFile request = Some (Inr (Some fileData))"
    and "\<not> too_large cfg fileData" and "\<not> write_fails e" and "\<not> create_fails e"
  shows "\<exists>m key. uploadAndCreateMedia cfg e request userId w =
            Some (Inr m, w\<lparr>files := (files w)(path_join e (uploadDir cfg) key \<mapsto> content fileData),
                           rows := rows w @ [m]\<rparr>)
          \<and> media_mimeType m = mimeType fileData
          \<and> sizeBytes m = length (content fileData) \<and> storageKey m = key
          \<and> ownerUserId m = userId"
proof -
  define key where
    "key = decimal (now e) @ ''-'' @ substr (random36 e) 2 9 @ extname e (filename fileData)"
  define m where
    "m = \<lparr>media_id = new_id e, url = baseUrl cfg @ ''/uploads/'' @ key,
          media_mimeType = mimeType fileData, sizeBytes = length (content fileData),
          width = None, height = None, storageKey = key, ownerUserId = userId\<rparr>"
  have "uploadAndCreateMedia cfg e request userId w =
          Some (Inr m, w\<lparr>files := (files w)(path_join e (uploadDir cfg) key \<mapsto> content fileData),
                         rows := rows w @ [m]\<rparr>)"
    using assms
    by (simp add: uploadAndCreateMedia_def writeFileSync_def media_create_def
          getImageDimensions_def Let_def key_def m_def)
  moreover have "media_mimeType m = mimeType fileData \<and> sizeBytes m = length (content fileData)
      \<and> storageKey m = key \<and> ownerUserId m = userId" by (simp add: m_def)
  ultimately show ?thesis by blast
qed

lemma uploadAndCreateMedia_request_A:
  "maxFileSize cfg = Some 10485760 \<Longrightarrow> uploadDir cfg = ''./uploads'' \<Longrightarrow> BASE_URL cfg = None \<Longrightarrow>
   uploadAndCreateMedia cfg env_0 request_A ''u1'' world_0 =
     Some (Inr \<lparr>media_id = ''m1'',
                url = ''http://localhost:4005/uploads/1234-k3j9x2m1p.png'',
                media_mimeType = ''image/png'', sizeBytes = 39,
                width = None, height = None,
                storageKey = ''1234-k3j9x2m1p.png'', ownerUserId = ''u1''\<rparr>,
           \<lparr>files = [''uploads/1234-k3j9x2m1p.png'' \<mapsto> payload_A @ [CR, LF]],
            rows = [\<lparr>media_id = ''m1'',
                     url = ''http://localhost:4005/uploads/1234-k3j9x2m1p.png'',
                     media_mimeType = ''image/png'', sizeBytes = 39,
                     width = None, height = None,
                     storageKey = ''1234-k3j9x2m1p.png'', ownerUserId = ''u1''\<rparr>]\<rparr>)"
  unfolding uploadAndCreateMedia_def parseMultipartFile_request_A
  by (simp add: too_large_def payload_A_def decimal_1234 posix_extname_a_png posix_join_uploads
        env_0_def world_0_def writeFileSync_def media_create_def getImageDimensions_def
        baseUrl_def substr_def Let_def)

text \<open>
  C9. The allow-list of MIME types is never read. Replacing it by any other list changes
  nothing in the outcome of \<open>uploadFile\<close> or of \<open>uploadAndCreateMedia\<close>, and the size
  check does not look at the MIME type. For each of the two operations, a decoded file
  part within the size limit is written to the upload directory and recorded with its own
  MIME type, whatever that type is and whatever the list holds; the only things that can
  still stop it are a failing write and a failing insert.
\<close>

theorem allow_list_never_consulted:
  "uploadFile (cfg\<lparr>allowedMimeTypes := a\<rparr>) e request w = uploadFile cfg e request w
   \<and> uploadAndCreateMedia (cfg\<lparr>allowedMimeTypes := a\<rparr>) e request userId w
       = uploadAndCreateMedia cfg e request userId w
   \<and> too_large cfg (fileData\<lparr>mimeType := t\<rparr>) = too_large cfg fileData
   \<and> (parseMultipartFile request = Some (Inr (Some fileData)) \<and> \<not> too_large cfg fileData
        \<and> \<not> write_fails e \<and> \<not> create_fails e
      \<longrightarrow> (\<exists>d m key. uploadFile cfg e request w =
            Some (Inr d, w\<lparr>files := (files w)(path_join e (uploadDir cfg) key \<mapsto> content fileData),
                           rows := rows w @ [m]\<rparr>)
          \<and> dto_mimeType d = mimeType fileData \<and> media_mimeType m = mimeType fileData)
        \<and> (\<exists>m key. uploadAndCreateMedia cfg e request userId w =
            Some (Inr m, w\<lparr>files := (files w)(path_join e (uploadDir cfg) key \<mapsto> content fileData),
                           rows := rows w @ [m]\<rparr>)
          \<and> media_mimeType m = mimeType fileData \<and> ownerUserId m = userId))"
proof -
  have t: "too_large (cfg\<lparr>allowedMimeTypes := a\<rparr>) = too_large cfg"
    by (rule ext) (simp add: too_large_def)
  have b: "baseUrl (cfg\<lparr>allowedMimeTypes := a\<rparr>) = baseUrl cfg"
    by (simp add: baseUrl_def)
  have u: "uploadDir (cfg\<lparr>allowedMimeTypes := a\<rparr>) = uploadDir cfg"
    by simp
  have "uploadFile (cfg\<lparr>allowedMimeTypes := a\<rparr>) e request w = uploadFile cfg e request w"
    by (simp only: uploadFile_def t b u)
  moreover have "uploadAndCreateMedia (cfg\<lparr>allowedMimeTypes := a\<rparr>) e request userId w
       = uploadAndCreateMedia cfg e request userId w"
    by (simp only: uploadAndCreateMedia_def t b u)
  moreover have "too_large cfg (fileData\<lparr>mimeType := t\<rparr>) = too_large cfg fileData"
    by (simp add: too_large_def split: option.splits)
  moreover have "\<exists>d m key. uploadFile cfg e request w =
            Some (Inr d, w\<lparr>files := (files w)(path_join e (uploadDir cfg) key \<mapsto> content fileData),
                           rows := rows w @ [m]\<rparr>)
          \<and> dto_mimeType d = mimeType fileData \<and> media_mimeType m = mimeType fileData"
    if "parseMultipartFile request = Some (Inr (Some fileData))" "\<not> too_large cfg fileData"
       "\<not> write_fails e" "\<not> create_fails e"
    using uploadFile_stores [OF that, of w] by blast
  moreover have "\<exists>m key. uploadAndCreateMedia cfg e request userId w =
            Some (Inr m, w\<lparr>files := (files w)(path_join e (uploadDir cfg) key \<mapsto> content fileData),
                           rows := rows w @ [m]\<rparr>)
          \<and> media_mimeType m = mimeType fileData \<and> ownerUserId m = userId"
    if "parseMultipartFile request = Some (Inr (Some fileData))" "\<not> too_large cfg fileData"
       "\<not> write_fails e" "\<not> create_fails e"
    using uploadAndCreateMedia_stores [OF that, of userId w] by blast
  ultimately show ?thesis by blast
qed

theorem allow_list_never_consulted_witness:
  "''image/png'' \<notin> set (allowedMimeTypes (config_10MB\<lparr>allowedMimeTypes := [''video/mp4'']\<rparr>))
   \<and> uploadFile (config_10MB\<lparr>allowedMimeTypes := [''video/mp4'']\<rparr>) env_0 request_A world_0 =
     Some (Inr \<lparr>dto_id = ''m1'', dto_url = ''http://localhost:4005/uploads/1234-k3j9x2m1p.png'',
                dto_mimeType = ''image/png'', dto_width = None, dto_height = None\<rparr>,
           \<lparr>files = [''uploads/1234-k3j9x2m1p.png'' \<mapsto> payload_A @ [CR, LF]],
            rows = [\<lparr>media_id = ''m1'',
                     url = ''http://localhost:4005/uploads/1234-k3j9x2m1p.png'',
                     media_mimeType = ''image/png'', sizeBytes = 39,
                     width = None, height = None,
                     storageKey = ''1234-k3j9x2m1p.png'', ownerUserId = ''anonymous''\<rparr>]\<rparr>)
   \<and> uploadAndCreateMedia (config_10MB\<lparr>allowedMimeTypes := [''video/mp4'']\<rparr>) env_0 request_A
         ''u1'' world_0 =
     Some (Inr \<lparr>media_id = ''m1'',
                url = ''http://localhost:4005/uploads/1234-k3j9x2m1p.png'',
                media_mimeType = ''image/png'', sizeBytes = 39,
                width = None, height = None,
                storageKey = ''1234-k3j9x2m1p.png'', ownerUserId = ''u1''\<rparr>,
           \<lparr>files = [''uploads/1234-k3j9x2m1p.png'' \<mapsto> payload_A @ [CR, LF]],
            rows = [\<lparr>media_id = ''m1'',
                     url = ''http://localhost:4005/uploads/1234-k3j9x2m1p.png'',
                     media_mimeType = ''image/png'', sizeBytes = 39,
                     width = None, height = None,
                     storageKey = ''1234-k3j9x2m1p.png'', ownerUserId = ''u1''\<rparr>]\<rparr>)"
proof -
  from allow_list_never_consulted
            [where cfg = config_10MB and a = "[''video/mp4'']" and e = env_0
               and request = request_A and w = world_0 and userId = "''u1''"]
  have "uploadFile (config_10MB\<lparr>allowedMimeTypes := [''video/mp4'']\<rparr>) env_0 request_A world_0
       = uploadFile config_10MB env_0 request_A world_0"
    and "uploadAndCreateMedia (config_10MB\<lparr>allowedMimeTypes := [''video/mp4'']\<rparr>) env_0 request_A
           ''u1'' world_0
       = uploadAndCreateMedia config_10MB env_0 request_A ''u1'' world_0"
    by blast+
  then show ?thesis
    by (simp add: uploadFile_request_A uploadAndCreateMedia_request_A config_10MB_def)
qed

text \<open>
  C10. With no \<open>request.user\<close>, or a user without \<open>sub\<close>, \<open>uploadFile\<close> does not
  fail on that account: the file is written and the row is created with
  \<open>ownerUserId = 'anonymous'\<close>.
\<close>

theorem unauthenticated_upload_is_anonymous:
  assumes "user request = None \<or> (\<exists>u. user request = Some u \<and> sub u = None)"
    and "parseMultipartFile request = Some (Inr (Some fileData))"
    and "\<not> too_large cfg fileData" and "\<not> write_fails e" and "\<not> create_fails e"
  shows "\<exists>d m key. uploadFile cfg e request w =
            Some (Inr d, w\<lparr>files := (files w)(path_join e (uploadDir cfg) key \<mapsto> content fileData),
                           rows := rows w @ [m]\<rparr>)
          \<and> ownerUserId m = ''anonymous''"
proof -
  from assms(1) have "owner_of request = ''anonymous''"
    by (auto simp: owner_of_def)
  with uploadFile_stores [OF assms(2-5), of w] show ?thesis by metis
qed

theorem unauthenticated_upload_is_anonymous_witness:
  "user request_A = None
   \<and> (\<exists>d m key. uploadFile config_10MB env_0 request_A world_0 =
            Some (Inr d, world_0\<lparr>files := (files world_0)(path_join env_0 (uploadDir config_10MB) key
                                      \<mapsto> payload_A @ [CR, LF]),
                          rows := rows world_0 @ [m]\<rparr>)
          \<and> ownerUserId m = ''anonymous'')"
proof -
  have u: "user request_A = None" by (simp add: request_A_def)
  have s: "\<not> too_large config_10MB \<lparr>filename = ''a.png'', mimeType = ''image/png'',
                       content = payload_A @ [CR, LF]\<rparr>"
    by (simp add: too_large_def config_10MB_def payload_A_def)
  have w: "\<not> write_fails env_0" and c: "\<not> create_fails env_0" by (simp_all add: env_0_def)
  from unauthenticated_upload_is_anonymous [OF disjI1 [OF u] parseMultipartFile_request_A s w c,
      where w = world_0] u
  show ?thesis by simp
qed

subsection \<open>The Boundary Extractor\<close>

lemma strip_prefix_Some_iff: "strip_prefix xs ys = Some r \<longleftrightarrow> ys = xs @ r"
  by (induction xs ys rule: strip_prefix.induct) auto

lemma no_line_terminator_iff:
  "list_all (\<lambda>x. \<not> line_terminator x) b \<longleftrightarrow> CR \<notin> set b \<and> LF \<notin> set b"
  by (auto simp: list_all_iff line_terminator_def)

lemma match_boundary_None_iff:
  "match_boundary s = None \<longleftrightarrow>
     \<not> (\<exists>p b. s = p @ ''boundary='' @ b \<and> b \<noteq> [] \<and> CR \<notin> set b \<and> LF \<notin> set b)"
proof (induction s)
  case Nil
  then show ?case by simp
next
  case (Cons c cs)
  let ?ok = "\<lambda>b. b \<noteq> [] \<and> CR \<notin> set b \<and> LF \<notin> set b"
  have here: "(\<exists>b. c # cs = ''boundary='' @ b \<and> ?ok b) \<longleftrightarrow>
      (\<exists>rest. strip_prefix ''boundary='' (c # cs) = Some rest \<and> ?ok rest)"
    by (simp only: strip_prefix_Some_iff)
  have split: "(\<exists>p b. c # cs = p @ ''boundary='' @ b \<and> ?ok b) \<longleftrightarrow>
      (\<exists>b. c # cs = ''boundary='' @ b \<and> ?ok b) \<or> (\<exists>p b. cs = p @ ''boundary='' @ b \<and> ?ok b)"
    (is "?L \<longleftrightarrow> ?H \<or> ?T")
  proof
    assume ?L
    then obtain p b where pb: "c # cs = p @ ''boundary='' @ b" "?ok b" by blast
    show "?H \<or> ?T"
    proof (cases p)
      case Nil
      with pb show ?thesis by auto
    next
      case (Cons a p')
      with pb have "cs = p' @ ''boundary='' @ b" by simp
      with pb(2) show ?thesis by blast
    qed
  next
    assume "?H \<or> ?T"
    then show ?L
    proof
      assume ?H
      then obtain b where "c # cs = [] @ ''boundary='' @ b" "?ok b" by auto
      then show ?L by blast
    next
      assume ?T
      then obtain p b where "cs = p @ ''boundary='' @ b" "?ok b" by blast
      then have "c # cs = (c # p) @ ''boundary='' @ b" by simp
      with \<open>?ok b\<close> show ?L by blast
    qed
  qed
  show ?case
    unfolding split here using Cons.IH
    by (auto simp: no_line_terminator_iff split: option.splits)
qed

lemma match_boundary_Some:
  assumes "match_boundary s = Some b"
  shows "b \<noteq> [] \<and> CR \<notin> set b \<and> LF \<notin> set b
       \<and> (\<exists>p. s = p @ ''boundary='' @ b
              \<and> (\<forall>p' b'. s = p' @ ''boundary='' @ b' \<and> b' \<noteq> [] \<and> CR \<notin> set b' \<and> LF \<notin> set b'
                    \<longrightarrow> length p \<le> length p'))"
  using assms
proof (induction s)
  case Nil
  then show ?case by simp
next
  case (Cons c cs)
  let ?ok = "\<lambda>b. b \<noteq> [] \<and> CR \<notin> set b \<and> LF \<notin> set b"
  show ?case
  proof (cases "\<exists>rest. strip_prefix ''boundary='' (c # cs) = Some rest \<and> ?ok rest")
    case True
    then obtain rest where r: "strip_prefix ''boundary='' (c # cs) = Some rest" "?ok rest"
      by blast
    with Cons.prems have "b = rest" by (simp add: no_line_terminator_iff)
    moreover from r have "c # cs = [] @ ''boundary='' @ rest"
      by (simp only: strip_prefix_Some_iff append_Nil)
    ultimately show ?thesis using r(2) by (metis le0 list.size(3))
  next
    case False
    then have nohere: "\<not> (\<exists>b'. c # cs = ''boundary='' @ b' \<and> ?ok b')"
      unfolding strip_prefix_Some_iff .
    from False Cons.prems have "match_boundary cs = Some b"
      by (auto simp: no_line_terminator_iff split: option.splits if_splits)
    from Cons.IH [OF this] obtain p where ok: "?ok b" and p: "cs = p @ ''boundary='' @ b"
      and least: "\<forall>p' b'. cs = p' @ ''boundary='' @ b' \<and> ?ok b' \<longrightarrow> length p \<le> length p'"
      by blast
    have "length (c # p) \<le> length p'" if d: "c # cs = p' @ ''boundary='' @ b'" and o: "?ok b'"
      for p' b'
    proof (cases p')
      case Nil
      with d o nohere show ?thesis by auto
    next
      case (Cons a p'')
      with d have "cs = p'' @ ''boundary='' @ b'" by simp
      with least o have "length p \<le> length p''" by blast
      with Cons show ?thesis by simp
    qed
    moreover from p have "c # cs = (c # p) @ ''boundary='' @ b" by simp
    ultimately show ?thesis using ok by blast
  qed
qed

text \<open>
  C4, as the code has it. Extraction fails, always with \<open>InvalidContentType\<close>, exactly
  when the header lacks \<open>multipart/form-data\<close> or has no \<open>boundary=\<close> that is followed,
  up to the end of the header, by at least one character and no carriage return or line
  feed. When it succeeds the boundary is the rest of the header after the first such
  \<open>boundary=\<close>, unchanged. A missing header fails.
\<close>

theorem boundary_extractor:
  "isl (extractBoundary (Some h)) =
     (\<not> sublist ''multipart/form-data'' h
      \<or> \<not> (\<exists>p b. h = p @ ''boundary='' @ b \<and> b \<noteq> [] \<and> CR \<notin> set b \<and> LF \<notin> set b))
   \<and> (\<forall>b. extractBoundary (Some h) = Inr b \<longrightarrow>
         b \<noteq> [] \<and> CR \<notin> set b \<and> LF \<notin> set b
         \<and> (\<exists>p. h = p @ ''boundary='' @ b
              \<and> (\<forall>p' b'. h = p' @ ''boundary='' @ b' \<and> b' \<noteq> [] \<and> CR \<notin> set b' \<and> LF \<notin> set b'
                    \<longrightarrow> length p \<le> length p')))
   \<and> (\<forall>x err. extractBoundary x = Inl err \<longrightarrow> (\<exists>msg. err = InvalidContentType msg))
   \<and> isl (extractBoundary None)"
proof -
  have a: "isl (extractBoundary (Some h)) =
     (\<not> sublist ''multipart/form-data'' h
      \<or> \<not> (\<exists>p b. h = p @ ''boundary='' @ b \<and> b \<noteq> [] \<and> CR \<notin> set b \<and> LF \<notin> set b))"
  proof (cases "match_boundary h")
    case None
    then show ?thesis
      using match_boundary_None_iff [of h] by (simp add: extractBoundary_def)
  next
    case (Some b)
    then have "\<exists>p b. h = p @ ''boundary='' @ b \<and> b \<noteq> [] \<and> CR \<notin> set b \<and> LF \<notin> set b"
      using match_boundary_None_iff [of h] by simp
    moreover have "h \<noteq> []" using Some by auto
    ultimately show ?thesis
      using Some by (simp add: extractBoundary_def str_includes_sublist)
  qed
  have b: "\<forall>b. extractBoundary (Some h) = Inr b \<longrightarrow>
         b \<noteq> [] \<and> CR \<notin> set b \<and> LF \<notin> set b
         \<and> (\<exists>p. h = p @ ''boundary='' @ b
              \<and> (\<forall>p' b'. h = p' @ ''boundary='' @ b' \<and> b' \<noteq> [] \<and> CR \<notin> set b' \<and> LF \<notin> set b'
                    \<longrightarrow> length p \<le> length p'))"
  proof (intro allI impI)
    fix b assume "extractBoundary (Some h) = Inr b"
    then have "match_boundary h = Some b"
      by (auto simp: extractBoundary_def split: if_splits option.splits)
    then show "b \<noteq> [] \<and> CR \<notin> set b \<and> LF \<notin> set b
         \<and> (\<exists>p. h = p @ ''boundary='' @ b
              \<and> (\<forall>p' b'. h = p' @ ''boundary='' @ b' \<and> b' \<noteq> [] \<and> CR \<notin> set b' \<and> LF \<notin> set b'
                    \<longrightarrow> length p \<le> length p'))"
      by (rule match_boundary_Some)
  qed
  have c: "\<forall>x err. extractBoundary x = Inl err \<longrightarrow> (\<exists>msg. err = InvalidContentType msg)"
    by (auto simp: extractBoundary_def split: if_splits option.splits)
  have d: "isl (extractBoundary None)" by (simp add: extractBoundary_def)
  from a b c d show ?thesis by blast
qed

theorem boundary_extractor_witness:
  "extractBoundary (Some ''multipart/form-data; boundary=----WebKitFormBoundary7MA4'')
     = Inr ''----WebKitFormBoundary7MA4''
   \<and> (\<exists>p. ''multipart/form-data; boundary=----WebKitFormBoundary7MA4''
           = p @ ''boundary='' @ ''----WebKitFormBoundary7MA4'')
   \<and> isl (extractBoundary (Some ''text/plain; boundary=X''))"
proof -
  have e: "extractBoundary (Some ''multipart/form-data; boundary=----WebKitFormBoundary7MA4'')
     = Inr ''----WebKitFormBoundary7MA4''"
    by code_simp
  have n: "\<not> sublist ''multipart/form-data'' ''text/plain; boundary=X''"
    by code_simp
  from boundary_extractor [of "''multipart/form-data; boundary=----WebKitFormBoundary7MA4''"] e
    boundary_extractor [of "''text/plain; boundary=X''"] n
  show ?thesis by blast
qed

text \<open>
  Against C4 as it is worded: the header \<open>multipart/form-data; boundary=\<close> has the
  token and has \<open>boundary=\<close>, and extraction fails on it: \<open>(.+)\<close> needs a character.
\<close>

theorem boundary_extractor_counterexample:
  "str_includes ''multipart/form-data; boundary='' ''multipart/form-data''
   \<and> str_includes ''multipart/form-data; boundary='' ''boundary=''
   \<and> extractBoundary (Some ''multipart/form-data; boundary='')
       = Inl (InvalidContentType ''No boundary found in multipart data'')"
  by code_simp


subsection \<open>The Part Header Parser\<close>

lemma butlast_CRLFCRLF: "butlast CRLFCRLF = [CR, LF, CR]"
  by (simp add: CRLFCRLF_def)

lemma length_CRLFCRLF: "length CRLFCRLF = 4"
  by (simp add: CRLFCRLF_def)

lemma CRLFCRLF_nonempty: "CRLFCRLF \<noteq> []"
  by (simp add: CRLFCRLF_def)

lemma parsePart_no_separator: "\<not> sublist CRLFCRLF part \<Longrightarrow> parsePart part = None"
  by (simp add: parsePart_def indexOf_zero find_first_None_iff [symmetric])

lemma parsePart_at:
  assumes "\<not> sublist CRLFCRLF (h @ [CR, LF, CR])"
  shows "parsePart (h @ CRLFCRLF @ b) =
           (if sublist ''Content-Disposition: form-data'' h \<and> sublist ''filename='' h
            then Some \<lparr>filename = (case match_filename (toString h) of
                                      Some m \<Rightarrow> m | None \<Rightarrow> ''unknown''),
                       mimeType = (case match_content_type (toString h) of
                                     Some m \<Rightarrow> trim m | None \<Rightarrow> ''application/octet-stream''),
                       content = b\<rparr>
            else None)"
proof -
  from assms have "\<not> sublist CRLFCRLF (h @ butlast CRLFCRLF)"
    unfolding butlast_CRLFCRLF .
  from find_first_at [OF CRLFCRLF_nonempty this]
  have f: "find_first CRLFCRLF (h @ CRLFCRLF @ b) = Some (length h)" .
  have ne: "length (h @ CRLFCRLF @ b) \<noteq> 0" by (simp add: CRLFCRLF_def)
  have s: "slice_from (h @ CRLFCRLF @ b) (length h + 4) = b"
    by (simp add: slice_from_def CRLFCRLF_def)
  have t: "slice (h @ CRLFCRLF @ b) 0 (length h) = h"
    by (simp add: slice_def)
  show ?thesis
    unfolding parsePart_def indexOf_zero f
    using ne by (simp add: s t includes_toString_disposition includes_toString_filename Let_def)
qed

lemma parsePart_SomeD:
  assumes "parsePart part = Some f"
  shows "\<exists>h. part = h @ CRLFCRLF @ content f \<and> \<not> sublist CRLFCRLF (h @ [CR, LF, CR])
           \<and> sublist ''Content-Disposition: form-data'' h \<and> sublist ''filename='' h
           \<and> filename f = (case match_filename (toString h) of Some m \<Rightarrow> m | None \<Rightarrow> ''unknown'')
           \<and> mimeType f = (case match_content_type (toString h) of
                              Some m \<Rightarrow> trim m | None \<Rightarrow> ''application/octet-stream'')"
proof (cases "find_first CRLFCRLF part")
  case None
  with assms show ?thesis by (simp add: parsePart_def indexOf_zero split: if_splits)
next
  case (Some i)
  let ?h = "take i part"
  from find_first_decomp [OF Some]
  have d: "part = ?h @ CRLFCRLF @ drop (i + 4) part" by (simp only: length_CRLFCRLF)
  from find_first_no_earlier [OF Some CRLFCRLF_nonempty]
  have n: "\<not> sublist CRLFCRLF (?h @ [CR, LF, CR])" unfolding butlast_CRLFCRLF .
  from parsePart_at [OF n, of "drop (i + 4) part"] d
  have "parsePart part =
           (if sublist ''Content-Disposition: form-data'' ?h \<and> sublist ''filename='' ?h
            then Some \<lparr>filename = (case match_filename (toString ?h) of Some m \<Rightarrow> m | None \<Rightarrow> ''unknown''),
                       mimeType = (case match_content_type (toString ?h) of
                                     Some m \<Rightarrow> trim m | None \<Rightarrow> ''application/octet-stream''),
                       content = drop (i + 4) part\<rparr>
            else None)"
    by simp
  with assms have "sublist ''Content-Disposition: form-data'' ?h \<and> sublist ''filename='' ?h
      \<and> f = \<lparr>filename = (case match_filename (toString ?h) of Some m \<Rightarrow> m | None \<Rightarrow> ''unknown''),
                       mimeType = (case match_content_type (toString ?h) of
                                     Some m \<Rightarrow> trim m | None \<Rightarrow> ''application/octet-stream''),
                       content = drop (i + 4) part\<rparr>"
    by (simp split: if_splits)
  with d n show ?thesis by (intro exI [of _ ?h]) auto
qed

lemma strip_prefix_None: "\<not> prefix xs ys \<Longrightarrow> strip_prefix xs ys = None"
  by (metis strip_prefix_Some_iff prefixI not_Some_eq)

lemma match_content_type_None:
  "\<not> sublist ''Content-Type:'' h \<Longrightarrow> match_content_type h = None"
proof (induction h)
  case Nil
  then show ?case by simp
next
  case (Cons c cs)
  from Cons.prems have np: "\<not> prefix ''Content-Type:'' (c # cs)"
    and ns: "\<not> sublist ''Content-Type:'' cs"
    by (auto simp: sublist_Cons_right)
  from np have "strip_prefix ''Content-Type:'' (c # cs) = None"
    by (rule strip_prefix_None)
  with Cons.IH [OF ns] show ?case by (simp only: match_content_type.simps option.case)
qed

lemma parseParts_SomeD:
  "parseParts parts = Some f \<Longrightarrow> \<exists>p \<in> set parts. parsePart p = Some f"
  by (induction parts) (auto split: option.splits)

text \<open>
  C6, as the code has it. A raw part without \<open>CRLF CRLF\<close> is skipped and is never the
  selected file. When a part is selected, the header block is what precedes the first
  \<open>CRLF CRLF\<close> and the content is every byte after those four, with nothing trimmed. A
  header block in which the text \<open>Content-Type:\<close> occurs nowhere, as a header name or
  inside the value of another header, gives the MIME type \<open>application/octet-stream\<close>.
\<close>

theorem part_header_parser:
  "(\<not> sublist CRLFCRLF part \<longrightarrow>
      parsePart part = None \<and> parseParts (part # parts) = parseParts parts)
   \<and> (\<forall>f. parsePart part = Some f \<longrightarrow>
        (\<exists>h. part = h @ CRLFCRLF @ content f
            \<and> \<not> sublist CRLFCRLF (h @ [CR, LF, CR])
            \<and> (\<not> sublist ''Content-Type:'' h \<longrightarrow> mimeType f = ''application/octet-stream'')))
   \<and> (\<forall>f. parseParts parts = Some f \<longrightarrow>
        (\<exists>p \<in> set parts. sublist CRLFCRLF p \<and> parsePart p = Some f))
   \<and> (\<forall>h b. \<not> sublist CRLFCRLF (h @ [CR, LF, CR])
          \<and> sublist ''Content-Disposition: form-data'' h \<and> sublist ''filename='' h \<longrightarrow>
        map_option content (parsePart (h @ CRLFCRLF @ b)) = Some b)"
proof -
  have a: "parsePart part = None \<and> parseParts (part # parts) = parseParts parts"
    if "\<not> sublist CRLFCRLF part"
    using parsePart_no_separator [OF that] by simp
  have b: "\<exists>h. part = h @ CRLFCRLF @ content f
            \<and> \<not> sublist CRLFCRLF (h @ [CR, LF, CR])
            \<and> (\<not> sublist ''Content-Type:'' h \<longrightarrow> mimeType f = ''application/octet-stream'')"
    if "parsePart part = Some f" for f
  proof -
    from parsePart_SomeD [OF that] obtain h where h: "part = h @ CRLFCRLF @ content f"
      "\<not> sublist CRLFCRLF (h @ [CR, LF, CR])"
      "mimeType f = (case match_content_type (toString h) of
                              Some m \<Rightarrow> trim m | None \<Rightarrow> ''application/octet-stream'')"
      by blast
    have "mimeType f = ''application/octet-stream''" if "\<not> sublist ''Content-Type:'' h"
      using h(3) match_content_type_None [of "toString h"] that
      by (simp add: sublist_toString_content_type)
    with h(1,2) show ?thesis by blast
  qed
  have c: "\<exists>p \<in> set parts. sublist CRLFCRLF p \<and> parsePart p = Some f"
    if "parseParts parts = Some f" for f
  proof -
    from parseParts_SomeD [OF that] obtain p where p: "p \<in> set parts" "parsePart p = Some f"
      by blast
    then have "sublist CRLFCRLF p" using parsePart_no_separator [of p] by auto
    with p show ?thesis by blast
  qed
  have d: "map_option content (parsePart (h @ CRLFCRLF @ b)) = Some b"
    if "\<not> sublist CRLFCRLF (h @ [CR, LF, CR])"
      "sublist ''Content-Disposition: form-data'' h" "sublist ''filename='' h" for h b
    using parsePart_at [OF that(1), of b] that(2,3) by simp
  from a b c d show ?thesis by blast
qed

theorem part_header_parser_witness:
  "parsePart (headers_no_type @ CRLFCRLF @ ''payload'' @ [CR, LF])
     = Some \<lparr>filename = ''a.bin'', mimeType = ''application/octet-stream'',
             content = ''payload'' @ [CR, LF]\<rparr>
   \<and> \<not> sublist ''Content-Type:'' headers_no_type
   \<and> \<not> sublist CRLFCRLF ''no separator here''
   \<and> parseParts [''no separator here''] = None"
proof -
  have n: "\<not> sublist CRLFCRLF ''no separator here''" by code_simp
  have t: "\<not> sublist ''Content-Type:'' headers_no_type" by code_simp
  have p: "parsePart (headers_no_type @ CRLFCRLF @ ''payload'' @ [CR, LF])
     = Some \<lparr>filename = ''a.bin'', mimeType = ''application/octet-stream'',
             content = ''payload'' @ [CR, LF]\<rparr>" by code_simp
  from part_header_parser [of "''no separator here''" "[]"] n
  have "parseParts [''no separator here''] = None" by simp
  moreover from part_header_parser [of "headers_no_type @ CRLFCRLF @ ''payload'' @ [CR, LF]" "[]"] p
  have "\<exists>h. headers_no_type @ CRLFCRLF @ ''payload'' @ [CR, LF] = h @ CRLFCRLF @ ''payload'' @ [CR, LF]"
    by fastforce
  ultimately show ?thesis using n t p by simp
qed

text \<open>
  Against C6 as it is worded: a part whose only header is Content-Disposition, for a file
  named \<open>Content-Type: notes.txt\<close>. It has no Content-Type header, and its MIME type
  is not the default: the regular expression is not anchored to the start of a line and
  finds \<open>Content-Type:\<close> inside the file name.
\<close>

theorem part_header_parser_counterexample:
  "\<not> spec_has_content_type headers_notes
   \<and> parsePart (headers_notes @ CRLFCRLF @ ''x'')
       = Some \<lparr>filename = ''Content-Type: notes.txt'', mimeType = ''notes.txt'' @ [DQ],
               content = ''x''\<rparr>"
  by code_simp

subsection \<open>The File Part Selector\<close>

lemma parsePart_Some_iff:
  "(parsePart part \<noteq> None) =
     (\<exists>h b. part = h @ CRLFCRLF @ b \<and> \<not> sublist CRLFCRLF (h @ [CR, LF, CR])
           \<and> sublist ''Content-Disposition: form-data'' h \<and> sublist ''filename='' h)"
proof
  assume "parsePart part \<noteq> None"
  then obtain f where "parsePart part = Some f" by auto
  from parsePart_SomeD [OF this] show "\<exists>h b. part = h @ CRLFCRLF @ b
      \<and> \<not> sublist CRLFCRLF (h @ [CR, LF, CR])
      \<and> sublist ''Content-Disposition: form-data'' h \<and> sublist ''filename='' h"
    by blast
next
  assume "\<exists>h b. part = h @ CRLFCRLF @ b \<and> \<not> sublist CRLFCRLF (h @ [CR, LF, CR])
           \<and> sublist ''Content-Disposition: form-data'' h \<and> sublist ''filename='' h"
  then obtain h b where "part = h @ CRLFCRLF @ b" "\<not> sublist CRLFCRLF (h @ [CR, LF, CR])"
    "sublist ''Content-Disposition: form-data'' h" "sublist ''filename='' h" by blast
  with parsePart_at [of h b] show "parsePart part \<noteq> None" by simp
qed

lemma parseParts_Some_iff:
  "(parseParts parts = Some f) =
     (\<exists>pre p post. parts = pre @ p # post \<and> (\<forall>q \<in> set pre. parsePart q = None)
                   \<and> parsePart p = Some f)"
proof (induction parts)
  case Nil
  then show ?case by simp
next
  case (Cons a parts)
  show ?case
  proof (cases "parsePart a")
    case None
    have "(\<exists>pre p post. a # parts = pre @ p # post \<and> (\<forall>q \<in> set pre. parsePart q = None)
                   \<and> parsePart p = Some f)
        = (\<exists>pre p post. parts = pre @ p # post \<and> (\<forall>q \<in> set pre. parsePart q = None)
                   \<and> parsePart p = Some f)" (is "?L = ?R")
    proof
      assume ?L
      then obtain pre p post where e: "a # parts = pre @ p # post"
        "\<forall>q \<in> set pre. parsePart q = None" "parsePart p = Some f" by blast
      show ?R
      proof (cases pre)
        case Nil
        with e None show ?thesis by simp
      next
        case (Cons x pre')
        with e have "parts = pre' @ p # post" "\<forall>q \<in> set pre'. parsePart q = None" by auto
        with e(3) show ?thesis by blast
      qed
    next
      assume ?R
      then obtain pre p post where e: "parts = pre @ p # post"
        "\<forall>q \<in> set pre. parsePart q = None" "parsePart p = Some f" by blast
      then have "a # parts = (a # pre) @ p # post" "\<forall>q \<in> set (a # pre). parsePart q = None"
        using None by auto
      with e(3) show ?L by blast
    qed
    with Cons.IH None show ?thesis by simp
  next
    case (Some g)
    have "(\<exists>pre p post. a # parts = pre @ p # post \<and> (\<forall>q \<in> set pre. parsePart q = None)
                   \<and> parsePart p = Some f) = (g = f)" (is "?L = _")
    proof
      assume ?L
      then obtain pre p post where e: "a # parts = pre @ p # post"
        "\<forall>q \<in> set pre. parsePart q = None" "parsePart p = Some f" by blast
      show "g = f"
      proof (cases pre)
        case Nil
        with e Some show ?thesis by simp
      next
        case (Cons x pre')
        with e Some show ?thesis by auto
      qed
    next
      assume "g = f"
      with Some have "a # parts = [] @ a # parts" "\<forall>q \<in> set []. parsePart q = None"
        "parsePart a = Some f" by auto
      then show ?L by blast
    qed
    with Some show ?thesis by simp
  qed
qed

lemma parseParts_None_iff:
  "(parseParts parts = None) = (\<forall>p \<in> set parts. parsePart p = None)"
  by (induction parts) (auto split: option.splits)

lemma parseMultipartFile_parts:
  assumes "extractBoundary (content_type request) = Inr boundary"
    and "body request = Some raw" and "raw \<noteq> []"
  shows "\<exists>parts. splitBuffer raw (delimiter_of boundary) = Some parts
           \<and> parseMultipartFile request = Some (Inr (parseParts parts))"
  using assms splitBuffer_spec_segments [OF delimiter_of_nonempty, of raw boundary]
  by (simp add: parseMultipartFile_def)

text \<open>
  C3, as the code has it. The loop over the parts returns the file of the first part that
  qualifies and never looks at a later one; it returns nothing exactly when no part
  qualifies, and then both operations fail with \<open>NoFileFound\<close>. A part qualifies when
  it has a \<open>CRLF CRLF\<close> and the header block before the first one contains
  \<open>Content-Disposition: form-data\<close> and \<open>filename=\<close>, anywhere and in this spelling; what
  follows \<open>filename=\<close> plays no part in the selection. So a qualifying part in front is
  the one selected, and parts in which \<open>filename=\<close> does not occur give
  \<open>NoFileFound\<close>. The parts are those \<open>splitBuffer\<close> returns for the body.
\<close>

theorem file_part_selector:
  "(parseParts parts = Some f) =
     (\<exists>pre p post. parts = pre @ p # post \<and> (\<forall>q \<in> set pre. parsePart q = None)
                   \<and> parsePart p = Some f)
   \<and> (parseParts parts = None) = (\<forall>p \<in> set parts. parsePart p = None)
   \<and> (parsePart part \<noteq> None) =
       (\<exists>h b. part = h @ CRLFCRLF @ b \<and> \<not> sublist CRLFCRLF (h @ [CR, LF, CR])
             \<and> sublist ''Content-Disposition: form-data'' h \<and> sublist ''filename='' h)
   \<and> (parsePart part \<noteq> None \<longrightarrow> parseParts (part # parts) = parsePart part)
   \<and> ((\<forall>p \<in> set parts. \<not> sublist ''filename='' p) \<longrightarrow> parseParts parts = None)
   \<and> (\<forall>boundary raw. extractBoundary (content_type request) = Inr boundary
          \<and> body request = Some raw \<and> raw \<noteq> [] \<longrightarrow>
        (\<exists>ps. splitBuffer raw (delimiter_of boundary) = Some ps
              \<and> parseMultipartFile request = Some (Inr (parseParts ps))))
   \<and> (parseMultipartFile request = Some (Inr None) \<longrightarrow>
        uploadFile cfg e request w = Some (Inl NoFileFound, w)
        \<and> uploadAndCreateMedia cfg e request userId w = Some (Inl NoFileFound, w))"
proof -
  have "parseMultipartFile request = Some (Inr None) \<longrightarrow>
        uploadFile cfg e request w = Some (Inl NoFileFound, w)
        \<and> uploadAndCreateMedia cfg e request userId w = Some (Inl NoFileFound, w)"
    by (simp add: uploadFile_def uploadAndCreateMedia_def)
  moreover have "parsePart part \<noteq> None \<longrightarrow> parseParts (part # parts) = parsePart part"
    by auto
  moreover have "parseParts parts = None" if "\<forall>p \<in> set parts. \<not> sublist ''filename='' p"
  proof -
    have "parsePart p = None" if "p \<in> set parts" for p
    proof (rule ccontr)
      assume "parsePart p \<noteq> None"
      then obtain h b where "p = h @ CRLFCRLF @ b" "sublist ''filename='' h"
        unfolding parsePart_Some_iff by blast
      then have "sublist ''filename='' p" by (simp add: sublist_append)
      with that \<open>\<forall>p \<in> set parts. \<not> sublist ''filename='' p\<close> show False by blast
    qed
    then show ?thesis by (simp add: parseParts_None_iff)
  qed
  ultimately show ?thesis
    using parseParts_Some_iff [of parts f] parseParts_None_iff [of parts]
      parsePart_Some_iff [of part] parseMultipartFile_parts [of request]
    by blast
qed

theorem file_part_selector_witness:
  "parseParts [part_a, part_b] = parsePart part_a
   \<and> parsePart part_a = Some \<lparr>filename = ''a.png'', mimeType = ''image/png'',
                              content = ''AAA'' @ [CR, LF]\<rparr>
   \<and> parseMultipartFile (request_of_parts [part_a, part_b])
       = Some (Inr (Some \<lparr>filename = ''a.png'', mimeType = ''image/png'',
                         content = ''AAA'' @ [CR, LF]\<rparr>))
   \<and> \<not> sublist ''filename='' part_caption
   \<and> parseParts [part_caption] = None
   \<and> parseMultipartFile (request_of_parts [part_caption]) = Some (Inr None)
   \<and> uploadFile config_10MB env_0 (request_of_parts [part_caption]) world_0
       = Some (Inl NoFileFound, world_0)
   \<and> uploadAndCreateMedia config_10MB env_0 (request_of_parts [part_caption]) ''u1'' world_0
       = Some (Inl NoFileFound, world_0)"
proof -
  have a: "parsePart part_a = Some \<lparr>filename = ''a.png'', mimeType = ''image/png'',
                              content = ''AAA'' @ [CR, LF]\<rparr>" by code_simp
  have ab: "parseMultipartFile (request_of_parts [part_a, part_b])
       = Some (Inr (Some \<lparr>filename = ''a.png'', mimeType = ''image/png'',
                         content = ''AAA'' @ [CR, LF]\<rparr>))" by code_simp
  have c: "\<not> sublist ''filename='' part_caption" by code_simp
  have pc: "parseMultipartFile (request_of_parts [part_caption]) = Some (Inr None)"
    by code_simp
  from a file_part_selector [where part = part_a and parts = "[part_b]"]
  have "parseParts [part_a, part_b] = parsePart part_a" by simp
  moreover from c file_part_selector [where parts = "[part_caption]"]
  have "parseParts [part_caption] = None" by simp
  moreover from pc file_part_selector [where request = "request_of_parts [part_caption]"
      and cfg = config_10MB and e = env_0 and w = world_0 and userId = "''u1''"]
  have "uploadFile config_10MB env_0 (request_of_parts [part_caption]) world_0
       = Some (Inl NoFileFound, world_0)
     \<and> uploadAndCreateMedia config_10MB env_0 (request_of_parts [part_caption]) ''u1'' world_0
       = Some (Inl NoFileFound, world_0)" by blast
  ultimately show ?thesis using a ab c pc by simp
qed

text \<open>
  Against C3 as it is worded: a file field submitted empty (\<open>filename=""\<close>) followed
  by the file \<open>b.png\<close>. The first part with a non-empty filename is the second, and
  the loop returns the first, under the name \<open>unknown\<close>.
\<close>

theorem file_part_selector_counterexample:
  "spec_select [part_unnamed, part_b] = Some part_b
   \<and> parsePart part_b = Some \<lparr>filename = ''b.png'', mimeType = ''image/png'',
                              content = ''BBB'' @ [CR, LF]\<rparr>
   \<and> parseParts [part_unnamed, part_b]
       = Some \<lparr>filename = ''unknown'', mimeType = ''application/octet-stream'',
               content = [CR, LF]\<rparr>
   \<and> parseMultipartFile (request_of_parts [part_unnamed, part_b])
       = Some (Inr (Some \<lparr>filename = ''unknown'', mimeType = ''application/octet-stream'',
                         content = [CR, LF]\<rparr>))"
  by code_simp

subsection \<open>Header names\<close>

text \<open>
  C8, as the code has it. Header names are compared byte for byte: a part is a file part
  exactly when its header block contains \<open>Content-Disposition: form-data\<close> and
  \<open>filename=\<close> in this spelling, and a header block without \<open>Content-Type:\<close> in this
  spelling gives the default MIME type.
\<close>

theorem header_names_exact_spelling:
  assumes "\<not> sublist CRLFCRLF (h @ [CR, LF, CR])"
  shows "(parsePart (h @ CRLFCRLF @ b) \<noteq> None)
           = (sublist ''Content-Disposition: form-data'' h \<and> sublist ''filename='' h)
       \<and> (\<forall>f. parsePart (h @ CRLFCRLF @ b) = Some f \<and> \<not> sublist ''Content-Type:'' h
              \<longrightarrow> mimeType f = ''application/octet-stream'')"
  using parsePart_at [OF assms, of b] match_content_type_None [of "toString h"]
  by (auto simp: sublist_toString_content_type split: if_splits)

theorem header_names_exact_spelling_witness:
  "\<not> sublist CRLFCRLF (headers_A_lowercase @ [CR, LF, CR])
   \<and> \<not> sublist ''Content-Disposition: form-data'' headers_A_lowercase
   \<and> parsePart (headers_A_lowercase @ CRLFCRLF @ ''x'') = None
   \<and> \<not> sublist CRLFCRLF (headers_A_mixed @ [CR, LF, CR])
   \<and> \<not> sublist ''Content-Type:'' headers_A_mixed
   \<and> map_option mimeType (parsePart (headers_A_mixed @ CRLFCRLF @ ''x''))
       = Some ''application/octet-stream''"
proof -
  have l: "\<not> sublist CRLFCRLF (headers_A_lowercase @ [CR, LF, CR])" by code_simp
  have d: "\<not> sublist ''Content-Disposition: form-data'' headers_A_lowercase" by code_simp
  have m: "\<not> sublist CRLFCRLF (headers_A_mixed @ [CR, LF, CR])" by code_simp
  have t: "\<not> sublist ''Content-Type:'' headers_A_mixed" by code_simp
  have s: "sublist ''Content-Disposition: form-data'' headers_A_mixed
      \<and> sublist ''filename='' headers_A_mixed" by code_simp
  from header_names_exact_spelling [OF l, of "''x''"] d
  have "parsePart (headers_A_lowercase @ CRLFCRLF @ ''x'') = None" by simp
  moreover from header_names_exact_spelling [OF m, of "''x''"] t s
  have "map_option mimeType (parsePart (headers_A_mixed @ CRLFCRLF @ ''x''))
       = Some ''application/octet-stream''" by auto
  ultimately show ?thesis using l d m t by simp
qed

text \<open>
  Against C8 as it is worded: with the header names of scenario A in lower case the
  same part is no longer a file part; with only \<open>content-type\<close> in lower case, its MIME
  type is lost.
\<close>

theorem header_names_case_counterexample:
  "map ascii_lower headers_A_lowercase = map ascii_lower headers_A
   \<and> map ascii_lower headers_A_mixed = map ascii_lower headers_A
   \<and> parsePart (headers_A @ CRLFCRLF @ ''x'')
       = Some \<lparr>filename = ''a.png'', mimeType = ''image/png'', content = ''x''\<rparr>
   \<and> parsePart (headers_A_lowercase @ CRLFCRLF @ ''x'') = None
   \<and> parsePart (headers_A_mixed @ CRLFCRLF @ ''x'')
       = Some \<lparr>filename = ''a.png'', mimeType = ''application/octet-stream'', content = ''x''\<rparr>"
  by code_simp

subsection \<open>Encoding, then decoding\<close>

lemma utf8_seven_bit: "\<forall>c \<in> set s. (of_char c :: nat) < 128 \<Longrightarrow> utf8 s = s"
  by (induction s) (simp_all add: utf8_def)

lemma match_boundary_header:
  assumes "b \<noteq> []" "CR \<notin> set b" "LF \<notin> set b"
  shows "match_boundary (''multipart/form-data; boundary='' @ b) = Some b"
  using assms by (simp add: no_line_terminator_iff)

lemma extractBoundary_header:
  assumes "b \<noteq> []" "CR \<notin> set b" "LF \<notin> set b"
  shows "extractBoundary (Some (''multipart/form-data; boundary='' @ b)) = Inr b"
proof -
  have "sublist ''multipart/form-data'' (''multipart/form-data'' @ (''; boundary='' @ b))"
    by (rule sublist_append_rightI)
  then have "str_includes (''multipart/form-data; boundary='' @ b) ''multipart/form-data''"
    by (simp add: str_includes_sublist)
  with match_boundary_header [OF assms] show ?thesis
    by (simp add: extractBoundary_def)
qed

lemma closing_has_no_delimiter:
  assumes "b \<noteq> []" "CR \<notin> set b"
  shows "\<not> sublist (''--'' @ b) (''--'' @ [CR, LF])"
proof -
  obtain x xs where b: "b = x # xs" using assms(1) by (cases b) auto
  with assms(2) have "x \<noteq> CR" by auto
  then show ?thesis
    by (simp add: b sublist_Cons_right CR_def LF_def)
qed

lemma drop_past_delimiter: "drop (length xs + length ys) (xs @ ys @ zs) = zs"
  by simp

lemma take_before_delimiter: "take (length xs) (xs @ ys) = xs"
  by simp

text \<open>
  A one-part body laid out as RFC 2046 says, with a 7-bit boundary that occurs nowhere
  before the closing delimiter and headers without an empty line, decodes to the payload
  followed by \<open>CR LF\<close>: the line break in front of the closing delimiter stays with the
  content.
\<close>

lemma decode_encode_appends_CRLF:
  assumes b: "b \<noteq> []" "CR \<notin> set b" "LF \<notin> set b" "\<forall>c \<in> set b. (of_char c :: nat) < 128"
    and pl: "\<not> sublist (''--'' @ b)
               ([CR, LF] @ headers @ CRLFCRLF @ payload @ [CR, LF] @ butlast (''--'' @ b))"
    and hd: "\<not> sublist CRLFCRLF ([CR, LF] @ headers @ [CR, LF, CR])"
    and cd: "sublist ''Content-Disposition: form-data'' headers" "sublist ''filename='' headers"
  shows "map_option (map_sum id (map_option content))
           (parseMultipartFile \<lparr>content_type = Some (''multipart/form-data; boundary='' @ b),
                                body = Some (encode b headers payload), user = u\<rparr>)
         = Some (Inr (Some (payload @ [CR, LF])))"
proof -
  let ?d = "''--'' @ b"
  let ?X = "[CR, LF] @ headers @ CRLFCRLF @ payload @ [CR, LF]"
  have d: "delimiter_of b = ?d"
    using utf8_seven_bit [OF b(4)] by (simp add: delimiter_of_dashes)
  have dne: "?d \<noteq> []" by simp
  have e: "encode b headers payload = [] @ ?d @ (?X @ ?d @ (''--'' @ [CR, LF]))"
    by (simp add: encode_def)
  have f0: "find_first ?d (encode b headers payload) = Some 0"
    unfolding e using find_first_at [OF dne, of "[]"] by simp
  have d0: "drop (0 + length ?d) (encode b headers payload) = ?X @ ?d @ (''--'' @ [CR, LF])"
    by (simp add: encode_def)
  have f1: "find_first ?d (?X @ ?d @ (''--'' @ [CR, LF])) = Some (length ?X)"
    using find_first_at [OF dne, of ?X "''--'' @ [CR, LF]"] pl by simp
  have d1: "drop (length ?X + length ?d) (?X @ ?d @ (''--'' @ [CR, LF])) = ''--'' @ [CR, LF]"
    by (rule drop_past_delimiter)
  have t1: "take (length ?X) (?X @ ?d @ (''--'' @ [CR, LF])) = ?X"
    by (rule take_before_delimiter)
  have f2: "find_first ?d (''--'' @ [CR, LF]) = None"
    unfolding find_first_None_iff by (rule closing_has_no_delimiter [OF b(1,2)])
  have segs: "spec_segments ?d (encode b headers payload) = [[], ?X, ''--'' @ [CR, LF]]"
    by (simp only: spec_segments_Some [OF dne f0] d0 spec_segments_Some [OF dne f1] d1 t1
          spec_segments_None [OF f2] take_0)
  have parts: "splitBuffer (encode b headers payload) ?d = Some [?X, ''--'' @ [CR, LF]]"
    unfolding splitBuffer_spec_segments [OF dne] segs by simp
  have "parsePart (([CR, LF] @ headers) @ CRLFCRLF @ (payload @ [CR, LF]))
        = Some \<lparr>filename = (case match_filename (toString ([CR, LF] @ headers)) of
                                Some m \<Rightarrow> m | None \<Rightarrow> ''unknown''),
                mimeType = (case match_content_type (toString ([CR, LF] @ headers)) of
                                Some m \<Rightarrow> trim m | None \<Rightarrow> ''application/octet-stream''),
                content = payload @ [CR, LF]\<rparr>"
    using parsePart_at [of "[CR, LF] @ headers" "payload @ [CR, LF]"] hd cd
    by (simp add: sublist_Cons_right)
  then have pp: "map_option content (parsePart ?X) = Some (payload @ [CR, LF])" by simp
  have ne: "encode b headers payload \<noteq> []" by (simp add: encode_def)
  have "parseMultipartFile \<lparr>content_type = Some (''multipart/form-data; boundary='' @ b),
                                body = Some (encode b headers payload), user = u\<rparr>
        = Some (Inr (parseParts [?X, ''--'' @ [CR, LF]]))"
    unfolding parseMultipartFile_def request.simps extractBoundary_header [OF b(1-3)]
    using ne by (simp only: parts [folded d] sum.case option.case length_0_conv if_False)
  with pp show ?thesis by (auto split: option.splits)
qed

text \<open>
  C1 at scenario A: the decoder returns the 37 bytes of the payload followed by the line
  break that precedes the closing delimiter, 39 bytes; \<open>uploadFile\<close> stores these 39
  bytes and records \<open>sizeBytes = 39\<close>.
\<close>

theorem scenario_A_content_has_trailing_CRLF:
  "parseMultipartFile request_A
     = Some (Inr (Some \<lparr>filename = ''a.png'', mimeType = ''image/png'',
                       content = payload_A @ [CR, LF]\<rparr>))
   \<and> length payload_A = 37
   \<and> length (payload_A @ [CR, LF]) = 39
   \<and> map_option (map_sum id (map_option content)) (parseMultipartFile request_A)
       \<noteq> Some (Inr (Some payload_A))
   \<and> map_option (\<lambda>r. map sizeBytes (rows (snd r)))
        (uploadFile config_10MB env_0 request_A world_0) = Some [39]"
proof -
  have "uploadFile config_10MB env_0 request_A world_0 =
     Some (Inr \<lparr>dto_id = ''m1'', dto_url = ''http://localhost:4005/uploads/1234-k3j9x2m1p.png'',
                dto_mimeType = ''image/png'', dto_width = None, dto_height = None\<rparr>,
           \<lparr>files = [''uploads/1234-k3j9x2m1p.png'' \<mapsto> payload_A @ [CR, LF]],
            rows = [\<lparr>media_id = ''m1'',
                     url = ''http://localhost:4005/uploads/1234-k3j9x2m1p.png'',
                     media_mimeType = ''image/png'', sizeBytes = 39,
                     width = None, height = None,
                     storageKey = ''1234-k3j9x2m1p.png'', ownerUserId = ''anonymous''\<rparr>]\<rparr>)"
    by (rule uploadFile_request_A) (simp_all add: config_10MB_def)
  then show ?thesis
    by (simp add: parseMultipartFile_request_A) (simp add: payload_A_def)
qed


end
